theory Spec2Isabelle
  imports Complex_Main "HOL-Library.Word" "HOL-Library.Multiset"
begin

unbundle bit_operations_syntax

section \<open>Cache-mask partitioning\<close>

type_synonym u64 = "64 word"

text \<open>
  \<^verbatim>\<open>split_mask\<close> exists twice: in \<^verbatim>\<open>split_cache_and_monitor.c\<close> (set bits counted by a
  loop over the 64 bit positions) and in \<^verbatim>\<open>cos.c\<close> (set bits counted by \<^verbatim>\<open>count_bits\<close>,
  which clears the lowest set bit until the word is zero). The C variables \<^verbatim>\<open>b\<close>,
  \<^verbatim>\<open>total_bits\<close>, \<^verbatim>\<open>half\<close>, \<^verbatim>\<open>picked\<close> and \<^verbatim>\<open>cnt\<close> are of type \<^verbatim>\<open>int\<close> and stay within
  0..64, so they are modelled as \<open>nat\<close>.
\<close>

function total_bits_loop :: "u64 \<Rightarrow> nat \<Rightarrow> nat \<Rightarrow> nat" where
  "total_bits_loop full_mask b total_bits =
     (if b < 64
      then total_bits_loop full_mask (b + 1)
             (if drop_bit b full_mask AND 1 \<noteq> 0 then total_bits + 1 else total_bits)
      else total_bits)"
  by pat_completeness auto
termination
  by (relation "measure (\<lambda>(m, b, t). 64 - b)") auto

declare total_bits_loop.simps [simp del]

function pick_loop :: "u64 \<Rightarrow> nat \<Rightarrow> nat \<Rightarrow> u64 \<Rightarrow> nat \<Rightarrow> u64" where
  "pick_loop full_mask half b m1 picked =
     (if b < 64 \<and> picked < half
      then (if drop_bit b full_mask AND 1 \<noteq> 0
            then pick_loop full_mask half (b + 1) (m1 OR push_bit b 1) (picked + 1)
            else pick_loop full_mask half (b + 1) m1 picked)
      else m1)"
  by pat_completeness auto
termination
  by (relation "measure (\<lambda>(m, h, b, m1, p). 64 - b)") auto

declare pick_loop.simps [simp del]

definition split_mask :: "u64 \<Rightarrow> u64 \<times> u64" where
  "split_mask full_mask =
     (let total_bits = total_bits_loop full_mask 0 0;
          half = total_bits div 2;
          m1 = pick_loop full_mask half 0 0 0
      in (m1, full_mask AND NOT m1))"

function count_bits_loop :: "u64 \<Rightarrow> nat \<Rightarrow> nat" where
  "count_bits_loop x cnt =
     (if x \<noteq> 0 then count_bits_loop (x AND (x - 1)) (cnt + 1) else cnt)"
  by pat_completeness auto
termination
proof (relation "measure (\<lambda>(x, c). unat x)")
  fix x :: u64 and cnt :: nat
  assume nz: "x \<noteq> 0"
  have "x AND (x - 1) \<le> x - 1"
    by (rule word_and_le1)
  moreover have "x - 1 < x"
    using nz by (simp add: word_less_nat_alt unat_minus_one unat_gt_0)
  ultimately have "x AND (x - 1) < x"
    by simp
  then show "((x AND (x - 1), cnt + 1), (x, cnt)) \<in> measure (\<lambda>(x, c). unat x)"
    by (simp add: word_less_nat_alt)
qed simp

declare count_bits_loop.simps [simp del]

definition count_bits :: "u64 \<Rightarrow> nat" where
  "count_bits x = count_bits_loop x 0"

text \<open>Reference notions used to state the properties: the number of set bits of a mask,
  and the number of set bits below a position.\<close>

definition popcount :: "u64 \<Rightarrow> nat" where
  "popcount w = length (filter (bit w) [0..<64])"

definition below :: "u64 \<Rightarrow> nat \<Rightarrow> nat" where
  "below w i = length (filter (bit w) [0..<i])"

definition split_mask_cos :: "u64 \<Rightarrow> u64 \<times> u64" where
  "split_mask_cos full_mask =
     (let total_bits = count_bits full_mask;
          half = total_bits div 2;
          m1 = pick_loop full_mask half 0 0 0
      in (m1, full_mask AND NOT m1))"

text \<open>Auxiliary for the proofs: the number of ones in the binary representation of a
  natural number.\<close>

fun popn :: "nat \<Rightarrow> nat" where
  "popn n = (if n = 0 then 0 else n mod 2 + popn (n div 2))"

declare popn.simps [simp del]

section \<open>Text of the sample log: printing and parsing numbers\<close>

text \<open>
  The samplers print unsigned decimal numbers with \<^verbatim>\<open>printf\<close>; the awk programs split
  lines into fields and convert fields to numbers. Both directions are modelled on
  \<open>string\<close>. Numbers inside awk are IEEE doubles; the model computes with exact rationals,
  so rounding and overflow to infinity are not represented.
\<close>

definition digit_char :: "nat \<Rightarrow> char" where
  "digit_char d = ''0123456789abcdef'' ! d"

definition is_digit :: "char \<Rightarrow> bool" where
  "is_digit c = (c \<in> set ''0123456789'')"

definition digit_val :: "char \<Rightarrow> nat" where
  "digit_val c = of_char c - 48"

text \<open>C's \<^verbatim>\<open>isspace\<close> in the C locale, which \<^verbatim>\<open>strtod\<close>, \<^verbatim>\<open>strtoull\<close> and \<^verbatim>\<open>atoi\<close> skip
  and the class \<^verbatim>\<open>[[:space:]]\<close> matches.\<close>

definition is_space :: "char \<Rightarrow> bool" where
  "is_space c = (c \<in> set [CHR '' '', CHR 0x09, CHR 0x0A, CHR 0x0B, CHR 0x0C, CHR 0x0D])"

text \<open>\<^verbatim>\<open>printf("%llu")\<close>: the decimal digits of an unsigned number, no leading zero.\<close>

function dec :: "nat \<Rightarrow> string" where
  "dec n = (if n < 10 then [digit_char n] else dec (n div 10) @ [digit_char (n mod 10)])"
  by pat_completeness auto
termination
  by (relation "measure id") auto

declare dec.simps [simp del]

text \<open>A minimum field width, as in \<^verbatim>\<open>%8llu\<close>: blanks on the left, nothing cut.\<close>

definition pad_left :: "nat \<Rightarrow> string \<Rightarrow> string" where
  "pad_left w s = replicate (w - length s) CHR '' '' @ s"

text \<open>
  The miss column of a data row, as \<^verbatim>\<open>monitor_pids_pair\<close> (both C programs) and
  \<^verbatim>\<open>monitor_cores\<close> (\<^verbatim>\<open>run_rdt.c\<close>) print it: the conversion \<^verbatim>\<open>%8" PRIu64 "k\<close> applied to
  \<^verbatim>\<open>miss/1024\<close>, an unsigned 64-bit division.
\<close>

definition miss_column :: "u64 \<Rightarrow> string" where
  "miss_column miss = pad_left 8 (dec (unat (miss div 1024))) @ ''k''"

text \<open>awk's default field splitting: fields are the maximal runs of characters other than
  blank, tab and newline.\<close>

definition is_fs :: "char \<Rightarrow> bool" where
  "is_fs c = (c = CHR '' '' \<or> c = CHR 0x09 \<or> c = CHR 0x0A)"

function awk_fields :: "string \<Rightarrow> string list" where
  "awk_fields s =
     (case dropWhile is_fs s of
        [] \<Rightarrow> []
      | c # r \<Rightarrow> (c # takeWhile (\<lambda>x. \<not> is_fs x) r) # awk_fields (dropWhile (\<lambda>x. \<not> is_fs x) r))"
  by pat_completeness auto
termination
proof (relation "measure length")
  fix s :: string and c r
  assume "dropWhile is_fs s = c # r"
  then have "length r < length s"
    using length_dropWhile_le[of is_fs s] by simp
  then show "(dropWhile (\<lambda>x. \<not> is_fs x) r, s) \<in> measure length"
    using length_dropWhile_le[of "\<lambda>x. \<not> is_fs x" r] by simp
qed simp

declare awk_fields.simps [simp del]

text \<open>\<^verbatim>\<open>$i\<close>: the i-th field, the empty string beyond the last one.\<close>

definition field :: "string list \<Rightarrow> nat \<Rightarrow> string" where
  "field fs i = (if 1 \<le> i \<and> i \<le> length fs then fs ! (i - 1) else [])"

text \<open>
  A string used as a number (\<^verbatim>\<open>x+0\<close>): awk converts the longest prefix that is a decimal
  floating-point numeral (leading white space, a sign, digits, a fraction, an exponent),
  and gives 0 when there is none. Hexadecimal, infinity and NaN spellings are not modelled.
\<close>

definition digits_val :: "string \<Rightarrow> nat" where
  "digits_val ds = foldl (\<lambda>a c. 10 * a + digit_val c) 0 ds"

definition strip_sign :: "string \<Rightarrow> bool \<times> string" where
  "strip_sign s =
     (case s of
        [] \<Rightarrow> (False, [])
      | c # r \<Rightarrow>
          if c = CHR ''-'' then (True, r)
          else if c = CHR ''+'' then (False, r)
          else (False, s))"

definition exponent :: "string \<Rightarrow> int" where
  "exponent s =
     (case s of
        [] \<Rightarrow> 0
      | c # r \<Rightarrow>
          if c = CHR ''e'' \<or> c = CHR ''E''
          then (case strip_sign r of (neg, r') \<Rightarrow>
                  let ed = takeWhile is_digit r'
                  in if neg then - int (digits_val ed) else int (digits_val ed))
          else 0)"

definition scale10 :: "rat \<Rightarrow> int \<Rightarrow> rat" where
  "scale10 x e = (if 0 \<le> e then x * 10 ^ nat e else x / 10 ^ nat (- e))"

definition awk_num :: "string \<Rightarrow> rat" where
  "awk_num s =
     (case strip_sign (dropWhile is_space s) of (neg, s2) \<Rightarrow>
        let ip = takeWhile is_digit s2;
            s3 = dropWhile is_digit s2;
            fp = (case s3 of [] \<Rightarrow> [] | c # r \<Rightarrow> if c = CHR ''.'' then takeWhile is_digit r else []);
            s4 = (case s3 of [] \<Rightarrow> [] | c # r \<Rightarrow> if c = CHR ''.'' then dropWhile is_digit r else s3);
            mant = of_nat (digits_val (ip @ fp)) / 10 ^ length fp
        in if ip = [] \<and> fp = [] then 0
           else (if neg then - 1 else 1) * scale10 mant (exponent s4))"

text \<open>\<^verbatim>\<open>gsub(/c$/, rep, x)\<close> for a single character \<open>c\<close>: a final \<open>c\<close> is replaced.\<close>

definition gsub_tail :: "char \<Rightarrow> string \<Rightarrow> string \<Rightarrow> string" where
  "gsub_tail c rep s = (if s \<noteq> [] \<and> last s = c then butlast s @ rep else s)"

text \<open>
  The miss field in \<^verbatim>\<open>noisy_detector.sh\<close> (the per-PID awk program):
  \<^verbatim>\<open>gsub(/k$/,"000",$4); gsub(/m$/,"000000",$4); sum_miss += $4+0\<close>.
\<close>

definition detector_miss :: "string \<Rightarrow> rat" where
  "detector_miss f4 =
     awk_num (gsub_tail CHR ''m'' ''000000'' (gsub_tail CHR ''k'' ''000'' f4))"

text \<open>
  The miss field in the core-map scoring script (second document of \<^verbatim>\<open>src/victim.c\<close>):
  \<^verbatim>\<open>mis=$3; gsub(/k$/,"000",mis); gsub(/m$/,"000000",mis); gsub(/K$/,"000",mis);
  gsub(/M$/,"000000",mis); mis+=0\<close>.
\<close>

definition coremap_mis :: "string \<Rightarrow> rat" where
  "coremap_mis f3 =
     awk_num (gsub_tail CHR ''M'' ''000000'' (gsub_tail CHR ''K'' ''000''
       (gsub_tail CHR ''m'' ''000000'' (gsub_tail CHR ''k'' ''000'' f3))))"

section \<open>Scoring in \<^verbatim>\<open>noisy_detector.sh\<close>\<close>

text \<open>
  The last awk program of \<^verbatim>\<open>noisy_detector.sh\<close> reads the aggregate file, one record
  \<^verbatim>\<open>proc,mis_sum,llc_kb_sum,bw_sum\<close> per process after the header line, and prints one score
  line per process and the noisiest one. A record is modelled by its process name and the
  numbers awk reads from fields 2 to 4; \<open>K\<close> is the weight given on the command line.
  Numbers are exact rationals; the \<^verbatim>\<open>%.6f\<close> rendering of the output is not modelled.
\<close>

type_synonym agg_row = "string \<times> rat \<times> rat \<times> rat"

record scorer_state =
  MIS :: "string \<rightharpoonup> rat"
  LLC :: "string \<rightharpoonup> rat"
  BW :: "string \<rightharpoonup> rat"
  sum_mis :: rat
  sum_llc :: rat
  sum_bw :: rat
  procs :: "string list"

definition scorer_init :: scorer_state where
  "scorer_init = \<lparr>MIS = Map.empty, LLC = Map.empty, BW = Map.empty,
     sum_mis = 0, sum_llc = 0, sum_bw = 0, procs = []\<rparr>"

text \<open>The rule \<^verbatim>\<open>NR>1 { ... }\<close>, run on one record.\<close>

fun read_row :: "scorer_state \<Rightarrow> agg_row \<Rightarrow> scorer_state" where
  "read_row st (p, mis, llc, bw) =
     st\<lparr>MIS := (MIS st)(p \<mapsto> mis), LLC := (LLC st)(p \<mapsto> llc), BW := (BW st)(p \<mapsto> bw),
        sum_mis := sum_mis st + mis, sum_llc := sum_llc st + llc, sum_bw := sum_bw st + bw,
        procs := procs st @ [p]\<rparr>"

text \<open>An awk array element used as a number: 0 when the key is absent.\<close>

definition elem :: "(string \<rightharpoonup> rat) \<Rightarrow> string \<Rightarrow> rat" where
  "elem a k = (case a k of None \<Rightarrow> 0 | Some v \<Rightarrow> v)"

text \<open>awk stops with a fatal error on a division by zero: \<open>None\<close>.\<close>

definition awk_div :: "rat \<Rightarrow> rat \<Rightarrow> rat option" where
  "awk_div a b = (if b = 0 then None else Some (a / b))"

text \<open>\<^verbatim>\<open>sum = sum ? sum : 1\<close>.\<close>

definition nonzero_or_one :: "rat \<Rightarrow> rat" where
  "nonzero_or_one s = (if s \<noteq> 0 then s else 1)"

text \<open>A printed score line: process, \<open>Occ_Score\<close>, \<open>Harm_Score\<close>, \<open>Noise_Score\<close>.\<close>

type_synonym score_line = "string \<times> rat \<times> rat \<times> rat"

definition score_line :: "scorer_state \<Rightarrow> rat \<Rightarrow> string \<Rightarrow> score_line option" where
  "score_line st K p =
     (case awk_div (elem (BW st) p) (sum_bw st) of None \<Rightarrow> None | Some nbw \<Rightarrow>
      case awk_div (elem (LLC st) p) (sum_llc st) of None \<Rightarrow> None | Some nocc \<Rightarrow>
      case awk_div (elem (MIS st) p) (sum_mis st) of None \<Rightarrow> None | Some harm \<Rightarrow>
        let occ = nbw + nocc; noise = occ + K * harm
        in Some (p, occ, harm, noise))"

text \<open>The loop \<^verbatim>\<open>for(i=1;i<=n;i++)\<close> of the \<^verbatim>\<open>END\<close> block, over the remaining names, with the
  lines printed so far, \<^verbatim>\<open>maxN\<close> and \<^verbatim>\<open>noisy\<close>.\<close>

fun score_loop ::
  "scorer_state \<Rightarrow> rat \<Rightarrow> string list \<Rightarrow> score_line list \<times> rat \<times> string \<Rightarrow>
     (score_line list \<times> rat \<times> string) option" where
  "score_loop st K [] acc = Some acc"
| "score_loop st K (p # ps) (printed, maxN, noisy) =
     (case score_line st K p of
        None \<Rightarrow> None
      | Some (q, occ, harm, noise) \<Rightarrow>
          if noise > maxN
          then score_loop st K ps (printed @ [(q, occ, harm, noise)], noise, p)
          else score_loop st K ps (printed @ [(q, occ, harm, noise)], maxN, noisy))"

text \<open>The \<^verbatim>\<open>END\<close> block: the three floors, \<^verbatim>\<open>maxN=-1\<close>, the loop. \<^verbatim>\<open>noisy\<close> is not set
  before the loop; an unset awk variable prints as the empty string.\<close>

definition scorer_END :: "rat \<Rightarrow> scorer_state \<Rightarrow> (score_line list \<times> rat \<times> string) option" where
  "scorer_END K st =
     (let st' = st\<lparr>sum_mis := nonzero_or_one (sum_mis st),
                   sum_llc := nonzero_or_one (sum_llc st),
                   sum_bw := nonzero_or_one (sum_bw st)\<rparr>
      in score_loop st' K (procs st') ([], - 1, []))"

definition noisy_scorer :: "rat \<Rightarrow> agg_row list \<Rightarrow> (score_line list \<times> rat \<times> string) option" where
  "noisy_scorer K rows = scorer_END K (foldl read_row scorer_init rows)"

text \<open>Reference notions used to state the properties of the scorer: the components of a
  record and of a score line, the three floored sums of a tick, the score line the
  formulas prescribe for a record, and a left-to-right scan keeping the first maximum.\<close>

definition row_mis :: "agg_row \<Rightarrow> rat" where
  "row_mis r = fst (snd r)"

definition row_llc :: "agg_row \<Rightarrow> rat" where
  "row_llc r = fst (snd (snd r))"

definition row_bw :: "agg_row \<Rightarrow> rat" where
  "row_bw r = snd (snd (snd r))"

definition line_occ :: "score_line \<Rightarrow> rat" where
  "line_occ l = fst (snd l)"

definition line_harm :: "score_line \<Rightarrow> rat" where
  "line_harm l = fst (snd (snd l))"

definition line_noise :: "score_line \<Rightarrow> rat" where
  "line_noise l = snd (snd (snd l))"

definition sumMisses :: "agg_row list \<Rightarrow> rat" where
  "sumMisses rows = nonzero_or_one (sum_list (map row_mis rows))"

definition sumOccupancy :: "agg_row list \<Rightarrow> rat" where
  "sumOccupancy rows = nonzero_or_one (sum_list (map row_llc rows))"

definition sumBandwidth :: "agg_row list \<Rightarrow> rat" where
  "sumBandwidth rows = nonzero_or_one (sum_list (map row_bw rows))"

definition spec_score :: "rat \<Rightarrow> agg_row list \<Rightarrow> agg_row \<Rightarrow> score_line" where
  "spec_score K rows r =
     (let normBW = row_bw r / sumBandwidth rows;
          normOcc = row_llc r / sumOccupancy rows;
          normMiss = row_mis r / sumMisses rows
      in (fst r, normBW + normOcc, normMiss, (normBW + normOcc) + K * normMiss))"

fun first_max :: "score_line list \<Rightarrow> rat \<times> string \<Rightarrow> rat \<times> string" where
  "first_max [] acc = acc"
| "first_max (l # ls) (m, q) =
     first_max ls (if line_noise l > m then (line_noise l, fst l) else (m, q))"

text \<open>The state at the start of the loop of the \<^verbatim>\<open>END\<close> block, and the line the loop prints
  for a name when no division fails.\<close>

definition end_state :: "agg_row list \<Rightarrow> scorer_state" where
  "end_state rows =
     (let st = foldl read_row scorer_init rows
      in st\<lparr>sum_mis := nonzero_or_one (sum_mis st),
            sum_llc := nonzero_or_one (sum_llc st),
            sum_bw := nonzero_or_one (sum_bw st)\<rparr>)"

definition printed_line :: "scorer_state \<Rightarrow> rat \<Rightarrow> string \<Rightarrow> score_line" where
  "printed_line st K p =
     (p, elem (BW st) p / sum_bw st + elem (LLC st) p / sum_llc st,
      elem (MIS st) p / sum_mis st,
      elem (BW st) p / sum_bw st + elem (LLC st) p / sum_llc st + K * (elem (MIS st) p / sum_mis st))"

section \<open>The core-map scoring script\<close>

text \<open>
  The second document of \<^verbatim>\<open>src/victim.c\<close> is a shell script whose awk program reads a
  \<^verbatim>\<open>pqos\<close> log, sums the rows of each block (one block per \<^verbatim>\<open>TIME\<close> line) per owning process
  and scores the processes. The table \<^verbatim>\<open>core2proc\<close> built by the \<^verbatim>\<open>BEGIN\<close> block is taken as
  given, indexed by the number of the core. The input is the list of the lines of the log.

  awk arrays are indexed by strings. The row arrays \<^verbatim>\<open>core\<close>, \<^verbatim>\<open>PROC\<close>, \<^verbatim>\<open>IPC\<close>, \<^verbatim>\<open>MIS\<close>,
  \<^verbatim>\<open>LLC\<close>, \<^verbatim>\<open>MBL\<close>, \<^verbatim>\<open>MBR\<close> are all written at the index \<^verbatim>\<open>idx\<close>; the program never assigns
  \<^verbatim>\<open>idx\<close> before its first use, and an unset variable used as an index is the empty
  string, not 0. The index is modelled as \<open>nat option\<close>: \<open>None\<close> is the empty string and
  \<open>Some n\<close> the number \<open>n\<close>.
\<close>

record sample =
  s_core :: rat
  s_PROC :: string
  s_IPC :: rat
  s_MIS :: rat
  s_LLC :: rat
  s_MBL :: rat
  s_MBR :: rat

text \<open>An element of the row arrays that was never written: empty as a string, 0 as a number.\<close>

definition unset_sample :: sample where
  "unset_sample = \<lparr>s_core = 0, s_PROC = [], s_IPC = 0, s_MIS = 0, s_LLC = 0, s_MBL = 0, s_MBR = 0\<rparr>"

record coremap_state =
  time :: string
  have_block :: bool
  idx :: "nat option"
  block :: "nat option \<rightharpoonup> sample"

definition coremap_init :: coremap_state where
  "coremap_init = \<lparr>time = [], have_block = False, idx = None, block = Map.empty\<rparr>"

text \<open>The pattern \<^verbatim>\<open>/^[[:space:]]*[0-9]+[[:space:]]+/\<close> of the data rule.\<close>

definition is_data_line :: "string \<Rightarrow> bool" where
  "is_data_line s =
     (let s1 = dropWhile is_space s
      in takeWhile is_digit s1 \<noteq> [] \<and>
         (case dropWhile is_digit s1 of [] \<Rightarrow> False | c # r \<Rightarrow> is_space c))"

text \<open>The data rule, on the fields of a matching line.\<close>

definition data_rule :: "(rat \<rightharpoonup> string) \<Rightarrow> coremap_state \<Rightarrow> string list \<Rightarrow> coremap_state" where
  "data_rule core2proc st fs =
     (let core_id = awk_num (field fs 1);
          ipc = awk_num (field fs 2);
          mis = coremap_mis (field fs 3);
          llc = awk_num (field fs 4);
          mbl = awk_num (field fs 5);
          mbr = awk_num (field fs 6);
          p = (case core2proc core_id of Some q \<Rightarrow> q | None \<Rightarrow> ''unmapped'')
      in st\<lparr>block := (block st)(idx st \<mapsto>
                \<lparr>s_core = core_id, s_PROC = p, s_IPC = ipc, s_MIS = mis, s_LLC = llc,
                 s_MBL = mbl, s_MBR = mbr\<rparr>),
            idx := Some (case idx st of None \<Rightarrow> 1 | Some n \<Rightarrow> n + 1),
            have_block := True\<rparr>)"

text \<open>\<^verbatim>\<open>reset_block\<close>: the row arrays are deleted and \<^verbatim>\<open>idx\<close> is set to 0. The per-process
  arrays it also deletes live only inside \<open>flush_block\<close> in this model.\<close>

definition reset_block :: "coremap_state \<Rightarrow> coremap_state" where
  "reset_block st = st\<lparr>block := Map.empty, idx := Some 0\<rparr>"

text \<open>The per-process arrays \<^verbatim>\<open>P_IPC\<close>, \<^verbatim>\<open>P_MIS\<close>, \<^verbatim>\<open>P_LLC\<close>, \<^verbatim>\<open>P_MBL\<close>, \<^verbatim>\<open>P_MBR\<close> have the same
  keys; they are modelled as one list of keys with their five sums, in the order in which
  the keys were created.\<close>

record psum =
  P_IPC :: rat
  P_MIS :: rat
  P_LLC :: rat
  P_MBL :: rat
  P_MBR :: rat

definition zero_psum :: psum where
  "zero_psum = \<lparr>P_IPC = 0, P_MIS = 0, P_LLC = 0, P_MBL = 0, P_MBR = 0\<rparr>"

definition P_get :: "(string \<times> psum) list \<Rightarrow> string \<Rightarrow> psum" where
  "P_get P p = (case map_of P p of None \<Rightarrow> zero_psum | Some v \<Rightarrow> v)"

fun P_add :: "(string \<times> psum) list \<Rightarrow> string \<Rightarrow> sample \<Rightarrow> (string \<times> psum) list" where
  "P_add [] p x =
     [(p, \<lparr>P_IPC = s_IPC x, P_MIS = s_MIS x, P_LLC = s_LLC x, P_MBL = s_MBL x, P_MBR = s_MBR x\<rparr>)]"
| "P_add ((q, v) # P) p x =
     (if q = p
      then (q, \<lparr>P_IPC = P_IPC v + s_IPC x, P_MIS = P_MIS v + s_MIS x, P_LLC = P_LLC v + s_LLC x,
                P_MBL = P_MBL v + s_MBL x, P_MBR = P_MBR v + s_MBR x\<rparr>) # P
      else (q, v) # P_add P p x)"

text \<open>The first loop of \<^verbatim>\<open>flush_block\<close>, \<^verbatim>\<open>for(i=0;i<idx;i++)\<close>, over the remaining indices.\<close>

fun accumulate ::
  "(nat option \<rightharpoonup> sample) \<Rightarrow> nat list \<Rightarrow> (string \<times> psum) list \<Rightarrow> (string \<times> psum) list" where
  "accumulate b [] P = P"
| "accumulate b (i # is) P =
     (let x = (case b (Some i) of None \<Rightarrow> unset_sample | Some y \<Rightarrow> y)
      in accumulate b is (P_add P (s_PROC x) x))"

text \<open>One printed record of \<^verbatim>\<open>proc_scores.csv\<close> (the values, not their \<^verbatim>\<open>printf\<close> rendering) and
  what \<^verbatim>\<open>flush_block\<close> produces for a block: the per-process sums, the records and the line
  appended to the verdict file.\<close>

record score_record =
  r_time :: string
  r_process :: string
  r_sums :: psum
  r_norm_bw :: rat
  r_norm_llc_occ :: rat
  r_norm_llc_miss :: rat
  r_Occ_Score :: rat
  r_Harm_Score :: rat
  r_Noise_Score :: rat

record tick_out =
  t_aggregates :: "(string \<times> psum) list"
  t_records :: "score_record list"
  t_time :: string
  t_culprit :: string
  t_maxN :: rat

definition score_record_of ::
  "string \<Rightarrow> rat \<Rightarrow> (string \<times> psum) list \<Rightarrow> rat \<Rightarrow> rat \<Rightarrow> rat \<Rightarrow> string \<Rightarrow> score_record option" where
  "score_record_of tm K P sbw socc smis p =
     (let v = P_get P p; bw = P_MBL v + P_MBR v
      in case awk_div bw sbw of None \<Rightarrow> None | Some nbw \<Rightarrow>
         case awk_div (P_LLC v) socc of None \<Rightarrow> None | Some nocc \<Rightarrow>
         case awk_div (P_MIS v) smis of None \<Rightarrow> None | Some nharm \<Rightarrow>
           Some \<lparr>r_time = tm, r_process = p, r_sums = v, r_norm_bw = nbw, r_norm_llc_occ = nocc,
                 r_norm_llc_miss = nharm, r_Occ_Score = nbw + nocc, r_Harm_Score = nharm,
                 r_Noise_Score = (nbw + nocc) + K * nharm\<rparr>)"

fun culprit_loop ::
  "string \<Rightarrow> rat \<Rightarrow> (string \<times> psum) list \<Rightarrow> rat \<Rightarrow> rat \<Rightarrow> rat \<Rightarrow> string list \<Rightarrow>
     score_record list \<times> rat \<times> string \<Rightarrow> (score_record list \<times> rat \<times> string) option" where
  "culprit_loop tm K P sbw socc smis [] acc = Some acc"
| "culprit_loop tm K P sbw socc smis (p # ps) (printed, maxN, culprit) =
     (case score_record_of tm K P sbw socc smis p of
        None \<Rightarrow> None
      | Some r \<Rightarrow>
          if r_Noise_Score r > maxN
          then culprit_loop tm K P sbw socc smis ps (printed @ [r], r_Noise_Score r, p)
          else culprit_loop tm K P sbw socc smis ps (printed @ [r], maxN, culprit))"

text \<open>
  \<^verbatim>\<open>flush_block\<close>. The loops \<^verbatim>\<open>for(p in P_IPC)\<close> visit the keys in an order awk leaves open:
  \<open>visit\<close> turns the keys, in order of creation, into the order of the visit. The awk
  variables \<^verbatim>\<open>sum_bw\<close>, \<^verbatim>\<open>sum_occ\<close> and \<^verbatim>\<open>sum_mis\<close> are \<open>sbw\<close>, \<open>socc\<close> and \<open>smis\<close> before
  the floor and primed after it.
\<close>

definition flush_block ::
  "(string list \<Rightarrow> string list) \<Rightarrow> rat \<Rightarrow> coremap_state \<Rightarrow> tick_out option" where
  "flush_block visit K st =
     (let n = (case idx st of None \<Rightarrow> 0 | Some k \<Rightarrow> k);
          P = accumulate (block st) [0..<n] [];
          ks = visit (map fst P);
          sbw = foldl (\<lambda>a p. a + (P_MBL (P_get P p) + P_MBR (P_get P p))) 0 ks;
          socc = foldl (\<lambda>a p. a + P_LLC (P_get P p)) 0 ks;
          smis = foldl (\<lambda>a p. a + P_MIS (P_get P p)) 0 ks;
          sbw' = (if sbw = 0 then 1 else sbw);
          socc' = (if socc = 0 then 1 else socc);
          smis' = (if smis = 0 then 1 else smis)
      in case culprit_loop (time st) K P sbw' socc' smis' ks ([], - 1, []) of
           None \<Rightarrow> None
         | Some (printed, maxN, culprit) \<Rightarrow>
             Some \<lparr>t_aggregates = P, t_records = printed, t_time = time st,
                   t_culprit = culprit, t_maxN = maxN\<rparr>)"

text \<open>One input line: the \<^verbatim>\<open>TIME\<close> rule, the data rule, or no rule. The result is the new
  state and the block output produced by this line, if any; \<open>None\<close> is a fatal awk error.\<close>

definition coremap_line ::
  "(string list \<Rightarrow> string list) \<Rightarrow> rat \<Rightarrow> (rat \<rightharpoonup> string) \<Rightarrow> coremap_state \<Rightarrow> string \<Rightarrow>
     (coremap_state \<times> tick_out list) option" where
  "coremap_line visit K core2proc st l =
     (let fs = awk_fields l
      in if field fs 1 = ''TIME''
         then (if have_block st
               then (case flush_block visit K st of
                       None \<Rightarrow> None
                     | Some out \<Rightarrow>
                         Some ((reset_block st)\<lparr>time := field fs 2 @ '' '' @ field fs 3\<rparr>, [out]))
               else Some (st\<lparr>time := field fs 2 @ '' '' @ field fs 3\<rparr>, []))
         else if is_data_line l
         then Some (data_rule core2proc st fs, [])
         else Some (st, []))"

fun coremap_lines ::
  "(string list \<Rightarrow> string list) \<Rightarrow> rat \<Rightarrow> (rat \<rightharpoonup> string) \<Rightarrow> coremap_state \<Rightarrow> string list \<Rightarrow>
     (coremap_state \<times> tick_out list) option" where
  "coremap_lines visit K core2proc st [] = Some (st, [])"
| "coremap_lines visit K core2proc st (l # ls) =
     (case coremap_line visit K core2proc st l of
        None \<Rightarrow> None
      | Some (st', out) \<Rightarrow>
          (case coremap_lines visit K core2proc st' ls of
             None \<Rightarrow> None
           | Some (st'', outs) \<Rightarrow> Some (st'', out @ outs)))"

text \<open>The whole program: all lines, then the \<^verbatim>\<open>END\<close> rule.\<close>

definition coremap_awk ::
  "(string list \<Rightarrow> string list) \<Rightarrow> rat \<Rightarrow> (rat \<rightharpoonup> string) \<Rightarrow> string list \<Rightarrow> tick_out list option" where
  "coremap_awk visit K core2proc ls =
     (case coremap_lines visit K core2proc coremap_init ls of
        None \<Rightarrow> None
      | Some (st, outs) \<Rightarrow>
          if have_block st
          then (case flush_block visit K st of None \<Rightarrow> None | Some out \<Rightarrow> Some (outs @ [out]))
          else Some outs)"

text \<open>Reference notions for the properties of the core-map script: the row the data rule
  stores for the fields of a line, the row found at an index, and the total of a column
  of the per-process sums.\<close>

definition row_sample :: "(rat \<rightharpoonup> string) \<Rightarrow> string list \<Rightarrow> sample" where
  "row_sample core2proc fs =
     \<lparr>s_core = awk_num (field fs 1),
      s_PROC = (case core2proc (awk_num (field fs 1)) of Some q \<Rightarrow> q | None \<Rightarrow> ''unmapped''),
      s_IPC = awk_num (field fs 2), s_MIS = coremap_mis (field fs 3),
      s_LLC = awk_num (field fs 4), s_MBL = awk_num (field fs 5), s_MBR = awk_num (field fs 6)\<rparr>"

definition row_at :: "(nat option \<rightharpoonup> sample) \<Rightarrow> nat \<Rightarrow> sample" where
  "row_at b i = (case b (Some i) of None \<Rightarrow> unset_sample | Some y \<Rightarrow> y)"

definition total_occupancy :: "(string \<times> psum) list \<Rightarrow> rat" where
  "total_occupancy P = sum_list (map (\<lambda>kv. P_LLC (snd kv)) P)"

section \<open>The two C programs: environment, effects and fatal errors\<close>

text \<open>
  \<^verbatim>\<open>split_cache_and_monitor.c\<close> and \<^verbatim>\<open>cos.c\<close> (first document of \<^verbatim>\<open>src/unnamed/part_000\<close>) share
  \<^verbatim>\<open>monitor_pids_pair\<close> and most of \<^verbatim>\<open>main\<close>. What they read from the machine is a record of
  functions of the clock, the number of \<^verbatim>\<open>sleep(1)\<close> calls made so far. What they do to the
  machine is a trace of actions: a call whose result the program tests appears in the trace
  when it succeeded, a call whose result is ignored appears always.
  \<^verbatim>\<open>die\<close> ends the run with a fatal error, a value of type \<open>fatal\<close> (the message without its
  rendering; \<^verbatim>\<open>exit\<close> flushes and closes the open files). Output to \<^verbatim>\<open>stdout\<close> is not
  modelled. \<^verbatim>\<open>detect_sockets\<close> and \<^verbatim>\<open>find_vm_pid\<close> are taken by their results, and \<^verbatim>\<open>fwrite\<close>
  to a file that could be opened is taken to be complete. The doubles \<^verbatim>\<open>ipc\<close>, \<^verbatim>\<open>mbl\<close>
  and \<^verbatim>\<open>mbr\<close> are rationals and their \<^verbatim>\<open>%w.2f\<close> rendering is a function of the environment.
\<close>

record mon_values =
  ipc :: rat
  llc_misses_delta :: u64
  llc :: u64
  mbm_local_delta :: u64
  mbm_remote_delta :: u64

record env =
  cbm_file :: "string option"
  detect_sockets :: "int list option"
  find_vm_pid :: "string \<Rightarrow> int"
  can_mkdir :: "nat \<Rightarrow> string \<Rightarrow> bool"
  can_fopen :: "nat \<Rightarrow> string \<Rightarrow> bool"
  can_rmdir :: "nat \<Rightarrow> string \<Rightarrow> bool"
  pqos_init_ok :: "nat \<Rightarrow> bool"
  pqos_mon_reset_ok :: "nat \<Rightarrow> bool"
  alive :: "nat \<Rightarrow> int \<Rightarrow> bool"
  mon_start_ret :: "nat \<Rightarrow> int \<Rightarrow> int"
  mon_poll_ok :: "nat \<Rightarrow> bool"
  mon_poll_values :: "nat \<Rightarrow> int \<Rightarrow> mon_values"
  timestamp :: "nat \<Rightarrow> string"
  fmt_2f :: "nat \<Rightarrow> rat \<Rightarrow> string"

datatype action =
    Mkdir string
  | Write_file string string
  | Append_file string string
  | Rmdir string
  | Pqos_init
  | Pqos_mon_reset
  | Pqos_fini
  | Mon_start int
  | Mon_stop int
  | Mon_poll
  | Fopen_w string
  | Fprintf string string
  | Fclose string

datatype fatal =
    Usage
  | Invalid_duration
  | Cannot_read string
  | Invalid_CBM string
  | Unexpected_CBM string
  | Zero_bits_set
  | Too_few_sockets
  | Mkdir_failed string
  | Writing_failed string
  | No_QEMU_PID string
  | Same_PID int
  | Appending_failed int string
  | Pqos_init_failed
  | Pqos_mon_reset_failed
  | Rmdir_failed string
  | PID_not_running int
  | Mon_start_failed int int
  | Fopen_failed string
  | PID_disappeared int
  | Mon_poll_failed

record pstate =
  clock :: nat
  trace :: "action list"

type_synonym prog = "pstate \<Rightarrow> pstate \<times> (fatal + unit)"

definition check :: "bool \<Rightarrow> fatal \<Rightarrow> prog" where
  "check ok e = (\<lambda>s. (s, if ok then Inr () else Inl e))"

definition emit :: "action \<Rightarrow> prog" where
  "emit a = (\<lambda>s. (s\<lparr>trace := trace s @ [a]\<rparr>, Inr ()))"

text \<open>A call that may fail, depending on the clock: the action when it succeeds, the fatal
  error of the \<^verbatim>\<open>die\<close> that follows when it fails.\<close>

definition attempt :: "(nat \<Rightarrow> bool) \<Rightarrow> action \<Rightarrow> fatal \<Rightarrow> prog" where
  "attempt ok a e = (\<lambda>s. if ok (clock s) then emit a s else (s, Inl e))"

text \<open>Statements in sequence: the first fatal error ends the run.\<close>

fun steps :: "prog list \<Rightarrow> prog" where
  "steps [] = (\<lambda>s. (s, Inr ()))"
| "steps (p # ps) = (\<lambda>s. case p s of (s', Inl e) \<Rightarrow> (s', Inl e) | (s', Inr u) \<Rightarrow> steps ps s')"

text \<open>\<^verbatim>\<open>printf("%d")\<close>, and the hexadecimal digits of \<^verbatim>\<open>%llx\<close> with a zero-padded width.\<close>

definition dec_int :: "int \<Rightarrow> string" where
  "dec_int i = (if i < 0 then CHR ''-'' # dec (nat (- i)) else dec (nat i))"

function hex :: "nat \<Rightarrow> string" where
  "hex n = (if n < 16 then [digit_char n] else hex (n div 16) @ [digit_char (n mod 16)])"
  by pat_completeness auto
termination
  by (relation "measure id") auto

declare hex.simps [simp del]

definition hex0 :: "nat \<Rightarrow> u64 \<Rightarrow> string" where
  "hex0 w x = replicate (w - length (hex (unat x))) CHR ''0'' @ hex (unat x)"

text \<open>\<^verbatim>\<open>atoi\<close>: white space, a sign, decimal digits; overflow is not modelled.\<close>

definition atoi :: "string \<Rightarrow> int" where
  "atoi s =
     (case strip_sign (dropWhile is_space s) of (neg, r) \<Rightarrow>
        let v = int (digits_val (takeWhile is_digit r)) in if neg then - v else v)"

subsection \<open>Reading the capacity mask\<close>

text \<open>\<^verbatim>\<open>read_file\<close>: the first line of the file without its newline; \<open>None\<close> when the file
  cannot be opened or is empty.\<close>

definition read_file :: "string option \<Rightarrow> string option" where
  "read_file content =
     (case content of
        None \<Rightarrow> None
      | Some c \<Rightarrow> if c = [] then None else Some (takeWhile (\<lambda>x. x \<noteq> CHR 0x0A) c))"

definition hex_digit_val :: "char \<Rightarrow> nat option" where
  "hex_digit_val c =
     (if c \<in> set ''0123456789'' then Some (of_char c - 48)
      else if c \<in> set ''abcdef'' then Some (of_char c - 87)
      else if c \<in> set ''ABCDEF'' then Some (of_char c - 55)
      else None)"

definition digit_in_base :: "nat \<Rightarrow> char \<Rightarrow> bool" where
  "digit_in_base b c = (case hex_digit_val c of None \<Rightarrow> False | Some v \<Rightarrow> v < b)"

definition base_val :: "nat \<Rightarrow> string \<Rightarrow> nat" where
  "base_val b ds = foldl (\<lambda>a c. b * a + the (hex_digit_val c)) 0 ds"

definition has_0x :: "string \<Rightarrow> bool" where
  "has_0x s = (case s of c1 # c2 # r \<Rightarrow> c1 = CHR ''0'' \<and> (c2 = CHR ''x'' \<or> c2 = CHR ''X'') | _ \<Rightarrow> False)"

text \<open>
  \<^verbatim>\<open>strtoull(s, &endp, base)\<close> for base 0 or 16: the value, the text \<^verbatim>\<open>endp\<close> points to, and
  whether \<^verbatim>\<open>errno\<close> is set (the value does not fit 64 bits). With no digit at all nothing
  is consumed.
\<close>

definition strtoull :: "nat \<Rightarrow> string \<Rightarrow> u64 \<times> string \<times> bool" where
  "strtoull base s =
     (case strip_sign (dropWhile is_space s) of (neg, s2) \<Rightarrow>
        let prefixed = (has_0x s2 \<and> (case drop 2 s2 of [] \<Rightarrow> False | c # r \<Rightarrow> digit_in_base 16 c));
            b = (if prefixed then 16
                 else if base = 0 then (case s2 of [] \<Rightarrow> 10 | c # r \<Rightarrow> if c = CHR ''0'' then 8 else 10)
                 else base);
            s3 = (if prefixed then drop 2 s2 else s2);
            ds = takeWhile (digit_in_base b) s3;
            v = base_val b ds
        in if ds = [] then (0, s, False)
           else if 2 ^ 64 \<le> v then (- 1, dropWhile (digit_in_base b) s3, True)
           else (if neg then - of_nat v else of_nat v, dropWhile (digit_in_base b) s3, False))"

definition parse_hex_u64 :: "string \<Rightarrow> u64 option" where
  "parse_hex_u64 hexstr =
     (case strtoull 0 hexstr of (val, endp, erange) \<Rightarrow>
        if erange \<or> endp \<noteq> [] then None else Some val)"

definition parse_hex_no_prefix :: "string \<Rightarrow> u64 option" where
  "parse_hex_no_prefix hexstr =
     (case strtoull 16 hexstr of (val, endp, erange) \<Rightarrow>
        if erange \<or> endp \<noteq> [] then None else Some val)"

subsection \<open>\<^verbatim>\<open>monitor_pids_pair\<close>\<close>

text \<open>\<^verbatim>\<open>wait_for_pid\<close>: up to \<open>n\<close> looks at \<^verbatim>\<open>/proc/<pid>\<close>, one second apart.\<close>

fun wait_for_pid :: "env \<Rightarrow> int \<Rightarrow> nat \<Rightarrow> pstate \<Rightarrow> pstate \<times> bool" where
  "wait_for_pid e pid 0 s = (s, False)"
| "wait_for_pid e pid (Suc n) s =
     (if alive e (clock s) pid then (s, True)
      else wait_for_pid e pid n (s\<lparr>clock := clock s + 1\<rparr>))"

definition wait_or_die :: "env \<Rightarrow> int \<Rightarrow> prog" where
  "wait_or_die e pid =
     (\<lambda>s. case wait_for_pid e pid 5 s of (s', ok) \<Rightarrow>
             (s', if ok then Inr () else Inl (PID_not_running pid)))"

definition header_line :: string where
  "header_line = ''TIME                PID     IPC      MISSES   LLC[KB]  MBL[MB/s]  MBR[MB/s]'' @ [CHR 0x0A]"

text \<open>The two lines printed for one process at one tick.\<close>

definition sample_text :: "env \<Rightarrow> string \<Rightarrow> int \<Rightarrow> mon_values \<Rightarrow> string" where
  "sample_text e ts pid v =
     ''TIME '' @ ts @ [CHR 0x0A] @
     ''     '' @ pad_left 6 (dec_int pid) @ ''   '' @ fmt_2f e 5 (ipc v) @ ''   '' @
     miss_column (llc_misses_delta v) @ ''   '' @ pad_left 7 (dec (unat (llc v div 1024))) @
     ''    '' @ fmt_2f e 6 (of_nat (unat (mbm_local_delta v)) / 1000000) @
     ''     '' @ fmt_2f e 6 (of_nat (unat (mbm_remote_delta v)) / 1000000) @ [CHR 0x0A]"

definition sleep1 :: prog where
  "sleep1 = (\<lambda>s. (s\<lparr>clock := clock s + 1\<rparr>, Inr ()))"

definition still_alive :: "env \<Rightarrow> int \<Rightarrow> prog" where
  "still_alive e pid = (\<lambda>s. (s, if alive e (clock s) pid then Inr () else Inl (PID_disappeared pid)))"

definition print_samples :: "env \<Rightarrow> int \<Rightarrow> int \<Rightarrow> string \<Rightarrow> string \<Rightarrow> prog" where
  "print_samples e pid1 pid2 outfile1 outfile2 =
     (\<lambda>s. steps
        [emit (Fprintf outfile1
           (sample_text e (timestamp e (clock s)) pid1 (mon_poll_values e (clock s) pid1))),
         emit (Fprintf outfile2
           (sample_text e (timestamp e (clock s)) pid2 (mon_poll_values e (clock s) pid2)))] s)"

text \<open>The loop \<^verbatim>\<open>for (int s = 0; s < duration; s++)\<close>, by the number of rounds left.\<close>

fun monitor_loop :: "env \<Rightarrow> int \<Rightarrow> int \<Rightarrow> string \<Rightarrow> string \<Rightarrow> nat \<Rightarrow> prog" where
  "monitor_loop e pid1 pid2 outfile1 outfile2 0 = steps []"
| "monitor_loop e pid1 pid2 outfile1 outfile2 (Suc n) =
     steps
       [sleep1,
        still_alive e pid1,
        still_alive e pid2,
        attempt (mon_poll_ok e) Mon_poll Mon_poll_failed,
        print_samples e pid1 pid2 outfile1 outfile2,
        monitor_loop e pid1 pid2 outfile1 outfile2 n]"

definition start_second :: "env \<Rightarrow> int \<Rightarrow> int \<Rightarrow> prog" where
  "start_second e pid1 pid2 =
     (\<lambda>s. if mon_start_ret e (clock s) pid2 = 0 then emit (Mon_start pid2) s
           else (s\<lparr>trace := trace s @ [Mon_stop pid1]\<rparr>,
                 Inl (Mon_start_failed pid2 (mon_start_ret e (clock s) pid2))))"

definition monitor_pids_pair :: "env \<Rightarrow> int \<Rightarrow> int \<Rightarrow> int \<Rightarrow> string \<Rightarrow> string \<Rightarrow> prog" where
  "monitor_pids_pair e pid1 pid2 duration outfile1 outfile2 =
     steps
       [wait_or_die e pid1,
        wait_or_die e pid2,
        (\<lambda>s. attempt (\<lambda>t. mon_start_ret e t pid1 = 0) (Mon_start pid1)
                (Mon_start_failed pid1 (mon_start_ret e (clock s) pid1)) s),
        start_second e pid1 pid2,
        attempt (\<lambda>t. can_fopen e t outfile1) (Fopen_w outfile1) (Fopen_failed outfile1),
        attempt (\<lambda>t. can_fopen e t outfile2) (Fopen_w outfile2) (Fopen_failed outfile2),
        emit (Fprintf outfile1 header_line),
        emit (Fprintf outfile2 header_line),
        monitor_loop e pid1 pid2 outfile1 outfile2 (nat duration),
        emit (Mon_stop pid1),
        emit (Mon_stop pid2),
        emit (Fclose outfile1),
        emit (Fclose outfile2)]"

text \<open>The content of a file after a trace, as a list of the texts printed to it since it
  was last opened for writing; \<open>None\<close> when the trace never created it.\<close>

definition file_step :: "string \<Rightarrow> string list option \<Rightarrow> action \<Rightarrow> string list option" where
  "file_step f c a =
     (case a of
        Fopen_w g \<Rightarrow> if g = f then Some [] else c
      | Write_file g t \<Rightarrow> if g = f then Some [t] else c
      | Fprintf g t \<Rightarrow> if g = f then (case c of None \<Rightarrow> None | Some ts \<Rightarrow> Some (ts @ [t])) else c
      | Append_file g t \<Rightarrow>
          if g = f then (case c of None \<Rightarrow> Some [t @ [CHR 0x0A]] | Some ts \<Rightarrow> Some (ts @ [t @ [CHR 0x0A]]))
          else c
      | _ \<Rightarrow> c)"

definition file_content :: "action list \<Rightarrow> string \<Rightarrow> string list option" where
  "file_content tr f = foldl (file_step f) None tr"

subsection \<open>The two \<^verbatim>\<open>main\<close> functions\<close>

definition CBM_MASK_PATH :: string where
  "CBM_MASK_PATH = ''/sys/fs/resctrl/info/L3/cbm_mask''"

definition COS1_DIR :: string where
  "COS1_DIR = ''/sys/fs/resctrl/COS1''"

definition COS2_DIR :: string where
  "COS2_DIR = ''/sys/fs/resctrl/COS2''"

definition COS1_SCHEMATA :: string where
  "COS1_SCHEMATA = ''/sys/fs/resctrl/COS1/schemata''"

definition COS2_SCHEMATA :: string where
  "COS2_SCHEMATA = ''/sys/fs/resctrl/COS2/schemata''"

definition COS1_TASKS :: string where
  "COS1_TASKS = ''/sys/fs/resctrl/COS1/tasks''"

definition COS2_TASKS :: string where
  "COS2_TASKS = ''/sys/fs/resctrl/COS2/tasks''"

definition DEFAULT_TASKS :: string where
  "DEFAULT_TASKS = ''/sys/fs/resctrl/tasks''"

definition mkdir_if_missing :: "env \<Rightarrow> string \<Rightarrow> prog" where
  "mkdir_if_missing e path = attempt (\<lambda>t. can_mkdir e t path) (Mkdir path) (Mkdir_failed path)"

definition write_str_to_file :: "env \<Rightarrow> string \<Rightarrow> string \<Rightarrow> prog" where
  "write_str_to_file e path str =
     attempt (\<lambda>t. can_fopen e t path) (Write_file path str) (Writing_failed path)"

definition append_pid :: "env \<Rightarrow> string \<Rightarrow> int \<Rightarrow> prog" where
  "append_pid e path pid =
     attempt (\<lambda>t. can_fopen e t path) (Append_file path (dec_int pid)) (Appending_failed pid path)"

definition rmdir :: "env \<Rightarrow> string \<Rightarrow> prog" where
  "rmdir e path = attempt (\<lambda>t. can_rmdir e t path) (Rmdir path) (Rmdir_failed path)"

text \<open>Steps shared by both programs once the two masks are known as text: the PIDs of the two
  virtual machines and their assignment to the two classes.\<close>

definition assign_pids :: "env \<Rightarrow> string \<Rightarrow> string \<Rightarrow> prog" where
  "assign_pids e vm1 vm2 =
     steps
       [check (0 < find_vm_pid e vm1) (No_QEMU_PID vm1),
        check (0 < find_vm_pid e vm2) (No_QEMU_PID vm2),
        check (find_vm_pid e vm1 \<noteq> find_vm_pid e vm2) (Same_PID (find_vm_pid e vm1)),
        append_pid e COS1_TASKS (find_vm_pid e vm1),
        append_pid e COS2_TASKS (find_vm_pid e vm2)]"

text \<open>The block between the two phases, \<^verbatim>\<open>/* 9) Clean up COS1/COS2, return PIDs to default \<close>
  in \<^verbatim>\<open>split_cache_and_monitor.c\<close> and \<^verbatim>\<open>CLEANUP & PHASE 2\<close> in \<^verbatim>\<open>cos.c\<close>, up to the removal of
  the two directories.\<close>

definition teardown_split_cache :: "env \<Rightarrow> int \<Rightarrow> int \<Rightarrow> prog" where
  "teardown_split_cache e pid1 pid2 =
     steps
       [emit Pqos_mon_reset,
        append_pid e DEFAULT_TASKS pid1,
        append_pid e DEFAULT_TASKS pid2,
        rmdir e COS1_DIR,
        rmdir e COS2_DIR]"

definition teardown_cos :: "env \<Rightarrow> int \<Rightarrow> int \<Rightarrow> prog" where
  "teardown_cos e pid1 pid2 =
     steps
       [emit Pqos_mon_reset,
        append_pid e COS1_TASKS pid1,
        append_pid e COS2_TASKS pid2,
        rmdir e COS1_DIR,
        rmdir e COS2_DIR]"

text \<open>\<^verbatim>\<open>split_cache_and_monitor.c\<close>, \<^verbatim>\<open>main\<close>, from the split of the mask on. The buffers
  \<^verbatim>\<open>schem1\<close> and \<^verbatim>\<open>schem2\<close> hold 63 characters.\<close>

definition run_split_cache :: "env \<Rightarrow> string \<Rightarrow> string \<Rightarrow> int \<Rightarrow> u64 \<Rightarrow> prog" where
  "run_split_cache e vm1 vm2 duration full_mask =
     (case split_mask full_mask of (mask1, mask2) \<Rightarrow>
      let mask1_str = ''0x'' @ hex0 16 mask1;
          mask2_str = ''0x'' @ hex0 16 mask2;
          socks = (case detect_sockets e of None \<Rightarrow> [] | Some ids \<Rightarrow> ids);
          sock0 = socks ! 0;
          sock1 = socks ! 1;
          schem1 = take 63 (''L3:'' @ dec_int sock0 @ ''=0x0;L3:'' @ dec_int sock1 @ ''='' @ mask1_str);
          schem2 = take 63 (''L3:'' @ dec_int sock0 @ ''=0x0;L3:'' @ dec_int sock1 @ ''='' @ mask2_str);
          pid1 = find_vm_pid e vm1;
          pid2 = find_vm_pid e vm2
      in steps
           [check (detect_sockets e \<noteq> None \<and> 2 \<le> length socks) Too_few_sockets,
            mkdir_if_missing e COS1_DIR,
            mkdir_if_missing e COS2_DIR,
            write_str_to_file e COS1_SCHEMATA schem1,
            write_str_to_file e COS2_SCHEMATA schem2,
            assign_pids e vm1 vm2,
            attempt (pqos_init_ok e) Pqos_init Pqos_init_failed,
            attempt (pqos_mon_reset_ok e) Pqos_mon_reset Pqos_mon_reset_failed,
            emit Pqos_mon_reset,
            monitor_pids_pair e pid1 pid2 duration ''VM1_half_baseline.txt'' ''VM2_half_baseline.txt'',
            teardown_split_cache e pid1 pid2,
            emit Pqos_fini,
            attempt (pqos_init_ok e) Pqos_init Pqos_init_failed,
            attempt (pqos_mon_reset_ok e) Pqos_mon_reset Pqos_mon_reset_failed,
            emit Pqos_mon_reset,
            monitor_pids_pair e pid1 pid2 duration ''VM1_normal.txt'' ''VM2_normal.txt'',
            emit Pqos_fini])"

text \<open>\<^verbatim>\<open>split_cache_and_monitor.c\<close>, \<^verbatim>\<open>main\<close>: the arguments after the program name, the duration,
  the mask file (with \<^verbatim>\<open>0x\<close> put in front when missing, in a buffer of 63 characters), then
  the rest.\<close>

definition main_split_cache :: "env \<Rightarrow> string list \<Rightarrow> prog" where
  "main_split_cache e args =
     (case args of
        [vm1, vm2, dur] \<Rightarrow>
          if atoi dur \<le> 0 then check False Invalid_duration
          else (case read_file (cbm_file e) of
                  None \<Rightarrow> check False (Cannot_read CBM_MASK_PATH)
                | Some cbm_raw \<Rightarrow>
                    (case parse_hex_u64 (if has_0x cbm_raw then cbm_raw else take 63 (''0x'' @ cbm_raw)) of
                       None \<Rightarrow> check False (Invalid_CBM cbm_raw)
                     | Some full_mask \<Rightarrow> run_split_cache e vm1 vm2 (atoi dur) full_mask))
      | _ \<Rightarrow> check False Usage)"

text \<open>The fixed lines of the schemata that \<^verbatim>\<open>cos.c\<close> writes: memory bandwidth, and all the
  second-level caches unrestricted.\<close>

definition L2_line :: string where
  "L2_line =
     ''L2:0=ffff;1=ffff;2=ffff;3=ffff;4=ffff;5=ffff;6=ffff;7=ffff;'' @
     ''8=ffff;9=ffff;10=ffff;11=ffff;12=ffff;13=ffff;14=ffff;15=ffff;'' @
     ''16=ffff;17=ffff;18=ffff;19=ffff;64=ffff;65=ffff;66=ffff;67=ffff;'' @
     ''68=ffff;69=ffff;70=ffff;71=ffff;72=ffff;73=ffff;74=ffff;75=ffff;'' @
     ''76=ffff;77=ffff;78=ffff;79=ffff;80=ffff;81=ffff;82=ffff;83=ffff'' @ [CHR 0x0A]"

definition cos_schema :: "string \<Rightarrow> int \<Rightarrow> int \<Rightarrow> string \<Rightarrow> string" where
  "cos_schema mb sock0 sock1 plain =
     take 1023 (mb @ [CHR 0x0A] @ L2_line @
       ''L3:'' @ dec_int sock0 @ ''='' @ plain @ '';'' @ dec_int sock1 @ ''='' @ plain @ [CHR 0x0A])"

text \<open>\<^verbatim>\<open>cos.c\<close>, \<^verbatim>\<open>main\<close>, from the split of the mask on; \<open>width\<close> is the number of hexadecimal
  digits read.\<close>

definition run_cos :: "env \<Rightarrow> string \<Rightarrow> string \<Rightarrow> int \<Rightarrow> nat \<Rightarrow> u64 \<Rightarrow> prog" where
  "run_cos e vm1 vm2 duration width full_mask =
     (case split_mask_cos full_mask of (mask_lower, mask_upper) \<Rightarrow>
      let plain_lower = hex0 width mask_lower;
          plain_upper = hex0 width mask_upper;
          socks = (case detect_sockets e of None \<Rightarrow> [] | Some ids \<Rightarrow> ids);
          sock0 = socks ! 0;
          sock1 = socks ! 1;
          pid1 = find_vm_pid e vm1;
          pid2 = find_vm_pid e vm2
      in steps
           [check (detect_sockets e \<noteq> None \<and> 2 \<le> length socks) Too_few_sockets,
            mkdir_if_missing e COS1_DIR,
            mkdir_if_missing e COS2_DIR,
            attempt (pqos_init_ok e) Pqos_init Pqos_init_failed,
            attempt (pqos_mon_reset_ok e) Pqos_mon_reset Pqos_mon_reset_failed,
            write_str_to_file e COS1_SCHEMATA (cos_schema ''MB:0=80;1=80'' sock0 sock1 plain_lower),
            write_str_to_file e COS2_SCHEMATA (cos_schema ''MB:0=20;1=20'' sock0 sock1 plain_upper),
            assign_pids e vm1 vm2,
            monitor_pids_pair e pid1 pid2 duration ''VM1_half_baseline.txt'' ''VM2_half_baseline.txt'',
            teardown_cos e pid1 pid2,
            emit Pqos_fini,
            attempt (pqos_init_ok e) Pqos_init Pqos_init_failed,
            attempt (pqos_mon_reset_ok e) Pqos_mon_reset Pqos_mon_reset_failed,
            monitor_pids_pair e pid1 pid2 duration ''VM1_normal.txt'' ''VM2_normal.txt'',
            emit Pqos_fini])"

text \<open>\<^verbatim>\<open>cos.c\<close>, \<^verbatim>\<open>main\<close>: a leading \<^verbatim>\<open>0x\<close> is skipped, one to sixteen characters must remain,
  and a mask without a set bit is fatal.\<close>

definition main_cos :: "env \<Rightarrow> string list \<Rightarrow> prog" where
  "main_cos e args =
     (case args of
        [vm1, vm2, dur] \<Rightarrow>
          if atoi dur \<le> 0 then check False Invalid_duration
          else (case read_file (cbm_file e) of
                  None \<Rightarrow> check False (Cannot_read CBM_MASK_PATH)
                | Some cbm_raw \<Rightarrow>
                    let hex_no_prefix = (if has_0x cbm_raw then drop 2 cbm_raw else cbm_raw);
                        width = length hex_no_prefix
                    in if width = 0 \<or> 16 < width then check False (Unexpected_CBM hex_no_prefix)
                       else (case parse_hex_no_prefix hex_no_prefix of
                               None \<Rightarrow> check False (Invalid_CBM hex_no_prefix)
                             | Some full_mask \<Rightarrow>
                                 if count_bits full_mask = 0 then check False Zero_bits_set
                                 else run_cos e vm1 vm2 (atoi dur) width full_mask))
      | _ \<Rightarrow> check False Usage)"

definition start_state :: pstate where
  "start_state = \<lparr>clock = 0, trace = []\<rparr>"

text \<open>A machine on which everything succeeds, used to run the programs on concrete inputs:
  the mask file has the given content, sockets 0 and 1, the virtual machine \<open>vm1\<close> runs as
  process 100 and every other one as process 200.\<close>

definition working_env :: "string \<Rightarrow> env" where
  "working_env cbm =
     \<lparr>cbm_file = Some cbm, detect_sockets = Some [0, 1],
      find_vm_pid = (\<lambda>vm. if vm = ''vm1'' then 100 else 200),
      can_mkdir = (\<lambda>t p. True), can_fopen = (\<lambda>t p. True), can_rmdir = (\<lambda>t p. True),
      pqos_init_ok = (\<lambda>t. True), pqos_mon_reset_ok = (\<lambda>t. True),
      alive = (\<lambda>t p. True), mon_start_ret = (\<lambda>t p. 0), mon_poll_ok = (\<lambda>t. True),
      mon_poll_values = (\<lambda>t p. \<lparr>ipc = 1, llc_misses_delta = 2048, llc = 4096,
         mbm_local_delta = 0, mbm_remote_delta = 0\<rparr>),
      timestamp = (\<lambda>t. ''2024-01-01 00:00:00''), fmt_2f = (\<lambda>w x. '' 0.00'')\<rparr>"

text \<open>The same machine, on which process 100 is gone from the first second on.\<close>

definition vanishing_env :: env where
  "vanishing_env = (working_env ''7fff'')\<lparr>alive := (\<lambda>t p. t = 0 \<or> p \<noteq> 100)\<rparr>"

text \<open>The actions of a trace other than the lines printed to the output files.\<close>

definition control_trace :: "action list \<Rightarrow> action list" where
  "control_trace tr = filter (\<lambda>a. case a of Fprintf f t \<Rightarrow> False | _ \<Rightarrow> True) tr"

section \<open>Properties of the mask partitioning\<close>

lemma test_bit_iff: "(drop_bit b (w :: u64) AND 1 \<noteq> 0) = bit w b"
  by (simp add: and_one_eq bit_iff_odd_drop_bit mod_2_eq_odd)

lemma total_bits_loop_eq:
  "b \<le> 64 \<Longrightarrow> total_bits_loop M b t = t + length (filter (bit M) [b..<64])"
proof (induction M b t rule: total_bits_loop.induct)
  case (1 M b t)
  show ?case
  proof (cases "b < 64")
    case True
    then have "[b..<64] = b # [b + 1..<64]"
      by (simp add: upt_conv_Cons)
    with True 1 show ?thesis
      by (subst total_bits_loop.simps) (simp add: test_bit_iff)
  next
    case False
    with 1 show ?thesis
      by (subst total_bits_loop.simps) simp
  qed
qed

lemma total_bits_popcount: "total_bits_loop M 0 0 = popcount M"
  by (simp add: total_bits_loop_eq popcount_def)

lemma below_Suc: "below M (Suc b) = below M b + (if bit M b then 1 else 0)"
  by (simp add: below_def)

lemma take_bit_Suc_word:
  "take_bit (Suc b) (M :: u64) = take_bit b M OR (if bit M b then push_bit b 1 else 0)"
  by (rule bit_eqI) (auto simp: bit_simps less_Suc_eq)

lemma below_mono: "i \<le> j \<Longrightarrow> below M i \<le> below M j"
proof (induction j)
  case 0 then show ?case by simp
next
  case (Suc j)
  then show ?case by (cases "i = Suc j") (auto simp: below_Suc)
qed

lemma below_strict: "i < j \<Longrightarrow> bit M i \<Longrightarrow> below M i < below M j"
proof -
  assume "i < j" "bit M i"
  then have "below M (Suc i) \<le> below M j" by (intro below_mono) simp
  with \<open>bit M i\<close> show ?thesis by (simp add: below_Suc)
qed

lemma pick_loop_take:
  "64 - b = n \<Longrightarrow> b \<le> 64 \<Longrightarrow> below M b \<le> half \<Longrightarrow>
   \<exists>k. b \<le> k \<and> k \<le> 64 \<and> pick_loop M half b (take_bit b M) (below M b) = take_bit k M \<and>
       (below M k = half \<or> (k = 64 \<and> below M k < half))"
proof (induction n arbitrary: b)
  case 0
  then have b: "b = 64" by simp
  have "pick_loop M half b (take_bit b M) (below M b) = take_bit b M"
    by (subst pick_loop.simps) (simp add: b)
  with 0 b show ?case by (intro exI[of _ 64]) auto
next
  case (Suc n)
  then have blt: "b < 64" by simp
  show ?case
  proof (cases "below M b < half")
    case False
    have "pick_loop M half b (take_bit b M) (below M b) = take_bit b M"
      using False by (subst pick_loop.simps) simp
    with False Suc.prems show ?thesis by (intro exI[of _ b]) auto
  next
    case True
    have step: "pick_loop M half b (take_bit b M) (below M b) =
          pick_loop M half (Suc b) (take_bit (Suc b) M) (below M (Suc b))"
      using True blt
      by (subst pick_loop.simps) (simp add: test_bit_iff take_bit_Suc_word below_Suc)
    have "64 - Suc b = n" "Suc b \<le> 64" "below M (Suc b) \<le> half"
      using Suc.prems True by (auto simp: below_Suc)
    from Suc.IH[OF this] obtain k where
      "Suc b \<le> k" "k \<le> 64" "pick_loop M half (Suc b) (take_bit (Suc b) M) (below M (Suc b)) = take_bit k M"
      "below M k = half \<or> (k = 64 \<and> below M k < half)" by blast
    with step show ?thesis by (intro exI[of _ k]) auto
  qed
qed

lemma below_64: "below M 64 = popcount M"
  by (simp add: below_def popcount_def)

lemma pick_loop_half:
  "\<exists>k\<le>64. pick_loop M (popcount M div 2) 0 0 0 = take_bit k M \<and> below M k = popcount M div 2"
proof -
  have "below M 0 \<le> popcount M div 2" by (simp add: below_def)
  from pick_loop_take[OF refl _ this] obtain k where
    k: "k \<le> 64" "pick_loop M (popcount M div 2) 0 (take_bit 0 M) (below M 0) = take_bit k M"
     "below M k = popcount M div 2 \<or> (k = 64 \<and> below M k < popcount M div 2)" by auto
  have "below M 0 = 0" by (simp add: below_def)
  moreover have "below M k = popcount M div 2"
    using k(3) by (auto simp: below_64)
  ultimately show ?thesis using k by auto
qed

lemma popcount_take_bit: "k \<le> 64 \<Longrightarrow> popcount (take_bit k M) = below M k"
proof -
  assume k: "k \<le> 64"
  have "[0..<64] = [0..<k] @ [k..<64]"
    using k by (metis le_add_diff_inverse upt_add_eq_append zero_le)
  moreover have "filter (bit (take_bit k M)) [0..<k] = filter (bit M) [0..<k]"
    by (rule filter_cong) (auto simp: bit_simps)
  moreover have "filter (bit (take_bit k M)) [k..<64] = []"
    by (auto simp: filter_empty_conv bit_simps)
  ultimately show ?thesis by (simp add: popcount_def below_def)
qed

lemma bit_take_below:
  assumes "k \<le> 64" "below M k = h"
  shows "bit (take_bit k M) i = (bit M i \<and> below M i < h)"
proof (cases "bit M i")
  case False then show ?thesis by (simp add: bit_simps)
next
  case True
  show ?thesis
  proof (cases "i < k")
    case True
    with \<open>bit M i\<close> assms below_strict[of i k M] show ?thesis by (simp add: bit_simps)
  next
    case False
    then have "below M k \<le> below M i" by (intro below_mono) simp
    with False assms show ?thesis by (simp add: bit_simps)
  qed
qed

lemma popn_0: "popn 0 = 0"
  by (subst popn.simps) simp

lemma and_odd_pred: "Suc (2 * m) AND (2 * m) = 2 * (m::nat)"
  by (subst and_nat_unfold) simp

lemma and_even_pred:
  "0 < m \<Longrightarrow> (2 * m) AND Suc (2 * (m - Suc 0)) = 2 * (m AND (m - Suc 0))"
  by (subst and_nat_unfold) simp

lemma popn_double: "popn (2 * m) = popn m"
  by (subst popn.simps) (simp add: popn_0)

lemma popn_Suc_double: "popn (Suc (2 * m)) = Suc (popn m)"
  by (subst popn.simps) simp

lemma popn_clear_lowest: "0 < n \<Longrightarrow> popn (n AND (n - 1)) + 1 = popn n"
proof (induction n rule: less_induct)
  case (less n)
  show ?case
  proof (cases "even n")
    case False
    then obtain m where n: "n = Suc (2 * m)"
      by (auto elim: oddE)
    show ?thesis
      unfolding n by (simp add: and_odd_pred popn_double popn_Suc_double)
  next
    case True
    then obtain m where n: "n = 2 * m"
      by (auto elim: evenE)
    with less.prems have m: "0 < m"
      by simp
    then have pred: "n - 1 = Suc (2 * (m - 1))"
      unfolding n by simp
    have "popn (m AND (m - 1)) + 1 = popn m"
      using less.IH[of m] m n by simp
    then show ?thesis
      unfolding pred unfolding n using m by (simp add: and_even_pred popn_double)
  qed
qed

lemma filter_bit_popn: "n < 2 ^ k \<Longrightarrow> length (filter (bit n) [0..<k]) = popn n"
proof (induction k arbitrary: n)
  case 0
  then show ?case by (simp add: popn.simps)
next
  case (Suc k)
  have "[0..<Suc k] = 0 # map Suc [0..<k]"
    by (simp add: upt_conv_Cons map_Suc_upt del: upt_Suc)
  then have "length (filter (bit n) [0..<Suc k]) =
      (if odd n then 1 else 0) + length (filter (bit (n div 2)) [0..<k])"
    by (simp add: filter_map comp_def bit_Suc bit_0 del: upt_Suc)
  moreover have "n div 2 < 2 ^ k" using Suc.prems by auto
  ultimately show ?case
    using Suc.IH[of "n div 2"] by (auto simp: popn.simps[of n] odd_iff_mod_2_eq_one)
qed

lemma popcount_popn: "popcount w = popn (unat w)"
proof -
  have "filter (bit w) [0..<64] = filter (bit (unat w)) [0..<64]"
    by (rule filter_cong) (auto simp: bit_unsigned_iff)
  moreover have "unat w < 2 ^ 64"
    using unsigned_less[of w] by simp
  ultimately show ?thesis
    by (simp add: popcount_def filter_bit_popn)
qed

lemma count_bits_loop_eq: "count_bits_loop x c = c + popn (unat x)"
proof (induction x c rule: count_bits_loop.induct)
  case (1 x cnt)
  show ?case
  proof (cases "x = 0")
    case True
    then show ?thesis by (subst count_bits_loop.simps) (simp add: popn.simps)
  next
    case False
    then have pos: "0 < unat x" by (simp add: unat_gt_0)
    have "unat (x AND (x - 1)) = unat x AND (unat x - 1)"
      using False by (simp add: unsigned_and_eq unat_minus_one)
    with 1 False popn_clear_lowest[OF pos] show ?thesis
      by (subst count_bits_loop.simps) simp
  qed
qed

lemma count_bits_popcount: "count_bits x = popcount x"
  by (simp add: count_bits_def count_bits_loop_eq popcount_popn)

text \<open>
  Claim C1. For every 64-bit mask \<open>M\<close> (zero included), both versions of \<^verbatim>\<open>split_mask\<close>
  return the same pair \<open>(maskA, maskB)\<close>; its two parts cover \<open>M\<close> and are disjoint,
  \<open>maskA\<close> has \<open>popcount M div 2\<close> set bits, and a bit of \<open>M\<close> is in \<open>maskA\<close> exactly when
  fewer than \<open>popcount M div 2\<close> set bits of \<open>M\<close> lie below it (the lowest set bits, at their
  own positions). A mask with a single set bit gives an empty \<open>maskA\<close> and \<open>maskB = M\<close>.
\<close>

theorem split_mask_partition:
  "(case split_mask M of (maskA, maskB) \<Rightarrow>
      maskA OR maskB = M \<and> maskA AND maskB = 0 \<and>
      popcount maskA = popcount M div 2 \<and>
      (\<forall>i. bit maskA i = (bit M i \<and> below M i < popcount M div 2)) \<and>
      (popcount M = 1 \<longrightarrow> maskA = 0 \<and> maskB = M)) \<and>
   split_mask_cos M = split_mask M"
proof -
  obtain k where k: "k \<le> 64" "pick_loop M (popcount M div 2) 0 0 0 = take_bit k M"
      "below M k = popcount M div 2"
    using pick_loop_half[of M] by blast
  let ?a = "take_bit k M"
  have sm: "split_mask M = (?a, M AND NOT ?a)"
    by (simp add: split_mask_def Let_def total_bits_popcount k(2))
  have cos: "split_mask_cos M = (?a, M AND NOT ?a)"
    by (simp add: split_mask_cos_def Let_def count_bits_popcount k(2))
  have u: "?a OR (M AND NOT ?a) = M"
    by (rule bit_eqI) (auto simp: bit_simps)
  have d: "?a AND (M AND NOT ?a) = 0"
    by (rule bit_eqI) (auto simp: bit_simps)
  have p: "popcount ?a = popcount M div 2"
    using k by (simp add: popcount_take_bit)
  have c: "\<forall>i. bit ?a i = (bit M i \<and> below M i < popcount M div 2)"
    using bit_take_below[OF k(1) k(3)] by blast
  have s: "popcount M = 1 \<longrightarrow> ?a = 0 \<and> M AND NOT ?a = M"
  proof
    assume "popcount M = 1"
    then have "\<forall>i. \<not> bit ?a i" using c by simp
    then have z: "?a = 0" by (intro bit_eqI) (simp add: bit_simps)
    then show "?a = 0 \<and> M AND NOT ?a = M" by simp
  qed
  show ?thesis using sm cos u d p c s by simp
qed

theorem split_mask_partition_witness:
  "popcount (8 :: u64) = 1 \<and> split_mask 8 = (0, 8) \<and> split_mask_cos 8 = (0, 8)"
proof -
  have one: "popcount (8 :: u64) = 1"
    by code_simp
  obtain a b where ab: "split_mask 8 = (a, b)"
    by (cases "split_mask 8")
  with one split_mask_partition[of 8] show ?thesis
    by simp
qed

section \<open>Properties of the log text\<close>


lemma digits_val_snoc: "digits_val (ds @ [c]) = 10 * digits_val ds + digit_val c"
  by (simp add: digits_val_def)


lemma is_digit_not_other:
  "is_digit c \<Longrightarrow> \<not> is_space c \<and> \<not> is_fs c \<and> c \<noteq> CHR ''-'' \<and> c \<noteq> CHR ''+'' \<and> c \<noteq> CHR ''.'' \<and>
     c \<noteq> CHR ''k'' \<and> c \<noteq> CHR ''m'' \<and> c \<noteq> CHR ''K'' \<and> c \<noteq> CHR ''M''"
  by (auto simp: is_digit_def is_space_def is_fs_def)

lemma awk_num_digits:
  assumes "list_all is_digit ds" and "ds \<noteq> []"
  shows "awk_num ds = of_nat (digits_val ds)"
proof -
  obtain c r where ds: "ds = c # r"
    using assms(2) by (cases ds) auto
  with assms(1) have c: "is_digit c"
    by simp
  have drop: "dropWhile is_space ds = ds"
    using c is_digit_not_other[of c] by (simp add: ds)
  have sign: "strip_sign ds = (False, ds)"
    using c is_digit_not_other[of c] by (simp add: ds strip_sign_def)
  have tw: "takeWhile is_digit ds = ds" and dw: "dropWhile is_digit ds = []"
    using assms(1) by (simp_all add: takeWhile_eq_all_conv list_all_iff)
  show ?thesis
    using assms(2) by (simp add: awk_num_def drop sign tw dw Let_def exponent_def scale10_def)
qed

lemma digits_val_append: "digits_val (xs @ ys) = digits_val xs * 10 ^ length ys + digits_val ys"
proof (induction ys rule: rev_induct)
  case Nil
  show ?case by (simp add: digits_val_def)
next
  case (snoc y ys)
  have "digits_val (xs @ ys @ [y]) = 10 * digits_val (xs @ ys) + digit_val y"
    using digits_val_snoc[of "xs @ ys" y] by simp
  with snoc show ?case
    by (simp add: digits_val_snoc algebra_simps)
qed

lemma gsub_tail_hit: "gsub_tail c rep (ds @ [c]) = ds @ rep"
  by (simp add: gsub_tail_def)

lemma gsub_tail_miss: "s = [] \<or> last s \<noteq> c \<Longrightarrow> gsub_tail c rep s = s"
  by (auto simp: gsub_tail_def)

lemma gsub_tail_digits: 
  "list_all is_digit ds \<Longrightarrow> c \<in> {CHR ''k'', CHR ''m'', CHR ''K'', CHR ''M''} \<Longrightarrow> gsub_tail c rep ds = ds"
proof (cases "ds = []")
  case True
  then show ?thesis by (simp add: gsub_tail_def)
next
  case False
  assume "list_all is_digit ds" "c \<in> {CHR ''k'', CHR ''m'', CHR ''K'', CHR ''M''}"
  with False have "is_digit (last ds)"
    by (simp add: list_all_iff)
  with \<open>c \<in> _\<close> is_digit_not_other[of "last ds"] have "last ds \<noteq> c"
    by auto
  then show ?thesis
    by (simp add: gsub_tail_def)
qed

lemma zeros_digits: "list_all is_digit ''000''" "list_all is_digit ''000000''"
  by (simp_all add: is_digit_def)

lemma zeros_val: "digits_val ''000'' = 0" "digits_val ''000000'' = 0"
  by (simp_all add: digits_val_def digit_val_def)

lemma coremap_mis_plain:
  assumes "list_all is_digit ds" and "ds \<noteq> []"
  shows "coremap_mis ds = of_nat (digits_val ds)"
  using assms by (simp add: coremap_mis_def gsub_tail_digits awk_num_digits)


lemma coremap_mis_mega:
  assumes "list_all is_digit ds" and "ds \<noteq> []" and "c = CHR ''m'' \<or> c = CHR ''M''"
  shows "coremap_mis (ds @ [c]) = of_nat (digits_val ds * 1000000)"
proof -
  have d: "list_all is_digit (ds @ ''000000'')"
    using assms(1) zeros_digits by simp
  have v: "awk_num (ds @ ''000000'') = of_nat (digits_val ds * 1000000)"
    using d by (subst awk_num_digits) (simp_all add: digits_val_append[of ds "''000000''"] zeros_val)
  from assms(3) show ?thesis
  proof
    assume c: "c = CHR ''m''"
    have "gsub_tail CHR ''k'' ''000'' (ds @ ''m'') = ds @ ''m''"
      by (simp add: gsub_tail_def)
    then show ?thesis
      using d v c gsub_tail_hit[of "CHR ''m''" "''000000''" ds]
      by (simp add: coremap_mis_def gsub_tail_digits)
  next
    assume c: "c = CHR ''M''"
    have "gsub_tail CHR ''k'' ''000'' (ds @ ''M'') = ds @ ''M''"
      "gsub_tail CHR ''m'' ''000000'' (ds @ ''M'') = ds @ ''M''"
      "gsub_tail CHR ''K'' ''000'' (ds @ ''M'') = ds @ ''M''"
      by (simp_all add: gsub_tail_def)
    then show ?thesis
      using d v c gsub_tail_hit[of "CHR ''M''" "''000000''" ds]
      by (simp add: coremap_mis_def gsub_tail_digits)
  qed
qed

lemma detector_miss_plain:
  assumes "list_all is_digit ds" and "ds \<noteq> []"
  shows "detector_miss ds = of_nat (digits_val ds)"
  using assms by (simp add: detector_miss_def gsub_tail_digits awk_num_digits)


lemma detector_miss_mega:
  assumes "list_all is_digit ds" and "ds \<noteq> []"
  shows "detector_miss (ds @ ''m'') = of_nat (digits_val ds * 1000000)"
proof -
  have d: "list_all is_digit (ds @ ''000000'')"
    using assms(1) zeros_digits by simp
  have v: "awk_num (ds @ ''000000'') = of_nat (digits_val ds * 1000000)"
    using d by (subst awk_num_digits) (simp_all add: digits_val_append[of ds "''000000''"] zeros_val)
  have "gsub_tail CHR ''k'' ''000'' (ds @ ''m'') = ds @ ''m''"
    by (simp add: gsub_tail_def)
  then show ?thesis
    using d v gsub_tail_hit[of "CHR ''m''" "''000000''" ds]
    by (simp add: detector_miss_def gsub_tail_digits)
qed

text \<open>Upper-case suffixes are left in place by the per-PID program: the number read is the
  digits before the letter.\<close>

lemma detector_miss_upper:
  assumes "list_all is_digit ds" and "ds \<noteq> []" and "c = CHR ''K'' \<or> c = CHR ''M''"
  shows "detector_miss (ds @ [c]) = of_nat (digits_val ds)"
proof -
  obtain d r where ds: "ds = d # r"
    using assms(2) by (cases ds) auto
  with assms(1) have dd: "is_digit d"
    by simp
  have cnd: "\<not> is_digit c" "c \<noteq> CHR ''.''" "c \<noteq> CHR ''e''" "c \<noteq> CHR ''E''" "c \<noteq> CHR ''k''" "c \<noteq> CHR ''m''"
    using assms(3) by (auto simp: is_digit_def)
  have g: "gsub_tail CHR ''m'' ''000000'' (gsub_tail CHR ''k'' ''000'' (ds @ [c])) = ds @ [c]"
    using cnd by (simp add: gsub_tail_def)
  have drop: "dropWhile is_space (ds @ [c]) = ds @ [c]"
    using dd is_digit_not_other[of d] by (simp add: ds)
  have sign: "strip_sign (ds @ [c]) = (False, ds @ [c])"
    using dd is_digit_not_other[of d] by (simp add: ds strip_sign_def)
  have tw: "takeWhile is_digit (ds @ [c]) = ds"
    using assms(1) cnd by (simp add: takeWhile_append2 list_all_iff)
  have dw: "dropWhile is_digit (ds @ [c]) = [c]"
    using assms(1) cnd by (simp add: dropWhile_append2 list_all_iff)
  show ?thesis
    using assms(2) cnd
    by (simp add: detector_miss_def g awk_num_def drop sign tw dw Let_def exponent_def scale10_def)
qed





lemmas awk_eval = detector_miss_def coremap_mis_def gsub_tail_def awk_num_def strip_sign_def
  is_space_def is_digit_def digits_val_def digit_val_def exponent_def scale10_def Let_def

text \<open>
  Claim C6. The per-PID awk program of \<^verbatim>\<open>noisy_detector.sh\<close> expands only the lower-case
  suffixes: the fields \<open>12K\<close> and \<open>3M\<close> are read as 12 and 3, where the claim asks for 12000
  and 3000000. The core-map scoring script expands all four suffixes.
\<close>

theorem detector_miss_upper_case:
  "detector_miss ''12K'' = 12 \<and> detector_miss ''3M'' = 3 \<and>
   coremap_mis ''12K'' = 12000 \<and> coremap_mis ''3M'' = 3000000"
  by (simp add: awk_eval)

section \<open>Properties of the scorer of \<^verbatim>\<open>noisy_detector.sh\<close>\<close>

lemma nonzero_or_one_neq0: "nonzero_or_one s \<noteq> 0"
  by (simp add: nonzero_or_one_def)

lemma nonzero_or_one_pos: "0 \<le> s \<Longrightarrow> 0 < nonzero_or_one s"
  by (simp add: nonzero_or_one_def)

lemma read_row_proj:
  "read_row st r = st\<lparr>MIS := (MIS st)(fst r \<mapsto> row_mis r), LLC := (LLC st)(fst r \<mapsto> row_llc r),
        BW := (BW st)(fst r \<mapsto> row_bw r),
        sum_mis := sum_mis st + row_mis r, sum_llc := sum_llc st + row_llc r,
        sum_bw := sum_bw st + row_bw r, procs := procs st @ [fst r]\<rparr>"
  by (cases r) (simp add: row_mis_def row_llc_def row_bw_def)

lemma foldl_read_row:
  "procs (foldl read_row scorer_init rows) = map fst rows \<and>
   sum_mis (foldl read_row scorer_init rows) = sum_list (map row_mis rows) \<and>
   sum_llc (foldl read_row scorer_init rows) = sum_list (map row_llc rows) \<and>
   sum_bw (foldl read_row scorer_init rows) = sum_list (map row_bw rows) \<and>
   MIS (foldl read_row scorer_init rows) = map_of (rev (map (\<lambda>r. (fst r, row_mis r)) rows)) \<and>
   LLC (foldl read_row scorer_init rows) = map_of (rev (map (\<lambda>r. (fst r, row_llc r)) rows)) \<and>
   BW (foldl read_row scorer_init rows) = map_of (rev (map (\<lambda>r. (fst r, row_bw r)) rows))"
proof (induction rows rule: rev_induct)
  case Nil
  show ?case by (simp add: scorer_init_def)
next
  case (snoc r rows)
  then show ?case by (simp add: read_row_proj)
qed

lemma elem_distinct:
  assumes "distinct (map fst rows)" and "r \<in> set rows"
  shows "elem (map_of (rev (map (\<lambda>r. (fst r, f r)) rows))) (fst r) = f r"
proof -
  have "distinct (map fst (rev (map (\<lambda>r. (fst r, f r)) rows)))"
    using assms(1) by (simp add: rev_map[symmetric] comp_def)
  moreover have "(fst r, f r) \<in> set (rev (map (\<lambda>r. (fst r, f r)) rows))"
    using assms(2) by auto
  ultimately have "map_of (rev (map (\<lambda>r. (fst r, f r)) rows)) (fst r) = Some (f r)"
    by (rule map_of_is_SomeI)
  then show ?thesis by (simp add: elem_def)
qed


lemma score_line_Some:
  assumes "sum_bw st \<noteq> 0" "sum_llc st \<noteq> 0" "sum_mis st \<noteq> 0"
  shows "score_line st K p = Some (printed_line st K p)"
  using assms by (simp add: score_line_def awk_div_def printed_line_def Let_def)

lemma score_loop_scan:
  assumes "sum_bw st \<noteq> 0" "sum_llc st \<noteq> 0" "sum_mis st \<noteq> 0"
  shows "score_loop st K ps (printed, maxN, noisy) =
     Some (printed @ map (printed_line st K) ps,
           first_max (map (printed_line st K) ps) (maxN, noisy))"
proof (induction ps arbitrary: printed maxN noisy)
  case Nil
  show ?case by simp
next
  case (Cons p ps)
  have l: "score_line st K p = Some (printed_line st K p)"
    using assms by (rule score_line_Some)
  obtain q occ harm noise where pl: "printed_line st K p = (q, occ, harm, noise)"
    by (cases "printed_line st K p")
  then have q: "q = p" by (simp add: printed_line_def)
  show ?case
    using Cons[of "printed @ [(q, occ, harm, noise)]"]
    by (simp add: l pl q line_noise_def)
qed

lemma first_max_le:
  "\<forall>l\<in>set ls. line_noise l \<le> m \<Longrightarrow> first_max ls (m, q) = (m, q)"
  by (induction ls) auto

lemma first_max_first:
  "\<exists>l\<in>set ls. m < line_noise l \<Longrightarrow>
   \<exists>i<length ls. first_max ls (m, q) = (line_noise (ls ! i), fst (ls ! i)) \<and> m < line_noise (ls ! i) \<and>
      (\<forall>j<length ls. line_noise (ls ! j) \<le> line_noise (ls ! i)) \<and>
      (\<forall>j<i. line_noise (ls ! j) < line_noise (ls ! i))"
proof (induction ls arbitrary: m q)
  case Nil
  then show ?case by simp
next
  case (Cons l ls)
  show ?case
  proof (cases "m < line_noise l")
    case True
    show ?thesis
    proof (cases "\<exists>l'\<in>set ls. line_noise l < line_noise l'")
      case False
      then have "first_max ls (line_noise l, fst l) = (line_noise l, fst l)"
        by (intro first_max_le) (auto simp: not_less)
      moreover have "\<forall>j<length (l # ls). line_noise ((l # ls) ! j) \<le> line_noise l"
        using False by (auto simp: nth_Cons not_less split: nat.splits)
      ultimately show ?thesis
        using True by (intro exI[of _ 0]) simp
    next
      case ex: True
      from Cons.IH[OF ex, of "fst l"] obtain i where i: "i < length ls"
        "first_max ls (line_noise l, fst l) = (line_noise (ls ! i), fst (ls ! i))"
        "line_noise l < line_noise (ls ! i)"
        "\<forall>j<length ls. line_noise (ls ! j) \<le> line_noise (ls ! i)"
        "\<forall>j<i. line_noise (ls ! j) < line_noise (ls ! i)"
        by blast
      have "\<forall>j<length (l # ls). line_noise ((l # ls) ! j) \<le> line_noise (ls ! i)"
        using i(3,4) by (auto simp: nth_Cons split: nat.splits)
      moreover have "\<forall>j<Suc i. line_noise ((l # ls) ! j) < line_noise (ls ! i)"
        using i(3,5) by (auto simp: nth_Cons split: nat.splits)
      ultimately show ?thesis
        using True i by (intro exI[of _ "Suc i"]) simp
    qed
  next
    case False
    with Cons.prems have ex: "\<exists>l'\<in>set ls. m < line_noise l'"
      by auto
    from Cons.IH[OF ex, of q] obtain i where i: "i < length ls"
        "first_max ls (m, q) = (line_noise (ls ! i), fst (ls ! i))"
        "m < line_noise (ls ! i)"
        "\<forall>j<length ls. line_noise (ls ! j) \<le> line_noise (ls ! i)"
        "\<forall>j<i. line_noise (ls ! j) < line_noise (ls ! i)"
      by blast
    have "\<forall>j<length (l # ls). line_noise ((l # ls) ! j) \<le> line_noise (ls ! i)"
      using i(3,4) False by (auto simp: nth_Cons split: nat.splits)
    moreover have "\<forall>j<Suc i. line_noise ((l # ls) ! j) < line_noise (ls ! i)"
      using i(3,5) False by (auto simp: nth_Cons split: nat.splits)
    ultimately show ?thesis
      using False i by (intro exI[of _ "Suc i"]) simp
  qed
qed

lemma elem_all:
  assumes "\<forall>r\<in>set rows. P (f r)" and "P 0"
  shows "P (elem (map_of (rev (map (\<lambda>r. (fst r, f r)) rows))) p)"
proof (cases "map_of (rev (map (\<lambda>r. (fst r, f r)) rows)) p")
  case None
  with assms(2) show ?thesis by (simp add: elem_def)
next
  case (Some v)
  then have "(p, v) \<in> set (rev (map (\<lambda>r. (fst r, f r)) rows))"
    by (rule map_of_SomeD)
  with assms(1) have "P v" by auto
  with Some show ?thesis by (simp add: elem_def)
qed

lemma end_state_fields:
  "procs (end_state rows) = map fst rows"
  "sum_mis (end_state rows) = sumMisses rows"
  "sum_llc (end_state rows) = sumOccupancy rows"
  "sum_bw (end_state rows) = sumBandwidth rows"
  "MIS (end_state rows) = map_of (rev (map (\<lambda>r. (fst r, row_mis r)) rows))"
  "LLC (end_state rows) = map_of (rev (map (\<lambda>r. (fst r, row_llc r)) rows))"
  "BW (end_state rows) = map_of (rev (map (\<lambda>r. (fst r, row_bw r)) rows))"
  using foldl_read_row[of rows]
  by (simp_all add: end_state_def Let_def sumMisses_def sumOccupancy_def sumBandwidth_def)

lemma sums_neq0:
  "sumMisses rows \<noteq> 0" "sumOccupancy rows \<noteq> 0" "sumBandwidth rows \<noteq> 0"
  by (simp_all add: sumMisses_def sumOccupancy_def sumBandwidth_def nonzero_or_one_neq0)

lemma noisy_scorer_eq:
  "noisy_scorer K rows =
     Some (map (printed_line (end_state rows) K) (map fst rows),
           first_max (map (printed_line (end_state rows) K) (map fst rows)) (- 1, []))"
proof -
  have "noisy_scorer K rows = score_loop (end_state rows) K (procs (end_state rows)) ([], - 1, [])"
    by (simp add: noisy_scorer_def scorer_END_def end_state_def Let_def)
  also have "\<dots> = Some ([] @ map (printed_line (end_state rows) K) (procs (end_state rows)),
      first_max (map (printed_line (end_state rows) K) (procs (end_state rows))) (- 1, []))"
    by (rule score_loop_scan) (simp_all add: end_state_fields sums_neq0)
  finally show ?thesis
    by (simp add: end_state_fields)
qed

lemma printed_line_spec:
  assumes "distinct (map fst rows)" and "r \<in> set rows"
  shows "printed_line (end_state rows) K (fst r) = spec_score K rows r"
  using elem_distinct[OF assms, of row_mis] elem_distinct[OF assms, of row_llc]
    elem_distinct[OF assms, of row_bw]
  by (simp add: printed_line_def spec_score_def end_state_fields Let_def)

lemma printed_lines_spec:
  assumes "distinct (map fst rows)"
  shows "map (printed_line (end_state rows) K) (map fst rows) = map (spec_score K rows) rows"
  using printed_line_spec[OF assms] by simp

lemma first_max_unique:
  assumes "k < length ls" and "m < line_noise (ls ! k)"
    and "\<forall>j<length ls. j \<noteq> k \<longrightarrow> line_noise (ls ! j) < line_noise (ls ! k)"
  shows "first_max ls (m, q) = (line_noise (ls ! k), fst (ls ! k))"
proof -
  have "\<exists>l\<in>set ls. m < line_noise l"
    using assms(1,2) nth_mem[of k ls] by blast
  from first_max_first[OF this, of q] obtain i where i: "i < length ls"
    "first_max ls (m, q) = (line_noise (ls ! i), fst (ls ! i))"
    "\<forall>j<length ls. line_noise (ls ! j) \<le> line_noise (ls ! i)"
    by blast
  have "i = k"
  proof (rule ccontr)
    assume "i \<noteq> k"
    with assms(3) i(1) have "line_noise (ls ! i) < line_noise (ls ! k)" by simp
    moreover from i(3) assms(1) have "line_noise (ls ! k) \<le> line_noise (ls ! i)" by simp
    ultimately show False by simp
  qed
  with i(2) show ?thesis by simp
qed

lemma score_loop_div0:
  assumes "sum_bw st = 0 \<or> sum_llc st = 0 \<or> sum_mis st = 0"
  shows "score_loop st K (p # ps) (printed, maxN, noisy) = None"
proof -
  have "score_line st K p = None"
    using assms by (auto simp: score_line_def awk_div_def split: option.splits)
  then show ?thesis
    by simp
qed

lemma scorer_END_Some:
  "\<exists>out. scorer_END K st = Some out"
proof -
  let ?st = "st\<lparr>sum_mis := nonzero_or_one (sum_mis st), sum_llc := nonzero_or_one (sum_llc st),
      sum_bw := nonzero_or_one (sum_bw st)\<rparr>"
  have "score_loop ?st K (procs ?st) ([], - 1, []) =
      Some ([] @ map (printed_line ?st K) (procs ?st),
            first_max (map (printed_line ?st K) (procs ?st)) (- 1, []))"
    by (rule score_loop_scan) (simp_all add: nonzero_or_one_neq0)
  then show ?thesis
    by (simp add: scorer_END_def Let_def)
qed

lemma printed_names: "map fst (map (printed_line st K) ps) = ps"
  by (induction ps) (simp_all add: printed_line_def)

lemma printed_occ_zero:
  assumes "\<forall>r\<in>set rows. row_bw r = 0 \<and> row_llc r = 0"
  shows "line_occ (printed_line (end_state rows) K p) = 0"
proof -
  have "elem (BW (end_state rows)) p = 0"
    unfolding end_state_fields using assms by (intro elem_all[where P = "\<lambda>v. v = 0"]) simp_all
  moreover have "elem (LLC (end_state rows)) p = 0"
    unfolding end_state_fields using assms by (intro elem_all[where P = "\<lambda>v. v = 0"]) simp_all
  ultimately show ?thesis
    by (simp add: printed_line_def line_occ_def)
qed

text \<open>
  Claim C4. Each of the three sums is replaced by 1 when it is zero, before the loop
  divides by it: from every accumulated state the \<^verbatim>\<open>END\<close> block runs to its end without
  a division by zero (without the floors a zero sum stops the first iteration, lemma
  \<open>score_loop_div0\<close>). When every record has zero bandwidth and zero occupancy, every
  printed \<open>Occ_Score\<close> is exactly 0.
\<close>

theorem scorer_floors:
  "nonzero_or_one 0 = 1 \<and>
   (\<exists>out. scorer_END K st = Some out) \<and>
   (\<exists>printed maxN noisy. noisy_scorer K rows = Some (printed, maxN, noisy) \<and>
      map fst printed = map fst rows \<and>
      ((\<forall>r\<in>set rows. row_bw r = 0 \<and> row_llc r = 0) \<longrightarrow> (\<forall>l\<in>set printed. line_occ l = 0)))"
proof (intro conjI)
  show "nonzero_or_one 0 = 1"
    by (simp add: nonzero_or_one_def)
  show "\<exists>out. scorer_END K st = Some out"
    by (rule scorer_END_Some)
  let ?ls = "map (printed_line (end_state rows) K) (map fst rows)"
  obtain m q where mq: "first_max ?ls (- 1, []) = (m, q)"
    by (cases "first_max ?ls (- 1, [])")
  have run: "noisy_scorer K rows = Some (?ls, m, q)"
    using noisy_scorer_eq[of K rows] mq by simp
  have names: "map fst ?ls = map fst rows"
    by (rule printed_names)
  have zero: "(\<forall>r\<in>set rows. row_bw r = 0 \<and> row_llc r = 0) \<longrightarrow> (\<forall>l\<in>set ?ls. line_occ l = 0)"
    using printed_occ_zero[of rows K] by auto
  from run names zero
  show "\<exists>printed maxN noisy. noisy_scorer K rows = Some (printed, maxN, noisy) \<and>
      map fst printed = map fst rows \<and>
      ((\<forall>r\<in>set rows. row_bw r = 0 \<and> row_llc r = 0) \<longrightarrow> (\<forall>l\<in>set printed. line_occ l = 0))"
    by blast
qed

theorem scorer_floors_witness:
  "row_bw (''a'', 5, 0, 0) = 0 \<and> row_llc (''a'', 5, 0, 0) = 0 \<and>
   row_bw (''b'', 7, 0, 0) = 0 \<and> row_llc (''b'', 7, 0, 0) = 0 \<and>
   (\<exists>printed maxN noisy.
      noisy_scorer 1 [(''a'', 5, 0, 0), (''b'', 7, 0, 0)] = Some (printed, maxN, noisy) \<and>
      (\<forall>l\<in>set printed. line_occ l = 0))"
proof -
  have z: "\<forall>r\<in>set [(''a'', 5, 0, 0), (''b'', 7, 0, 0)]. row_bw r = 0 \<and> row_llc r = 0"
    by (simp add: row_bw_def row_llc_def)
  from scorer_floors[of 1 scorer_init "[(''a'', 5, 0, 0), (''b'', 7, 0, 0)]"] z
  have "\<exists>printed maxN noisy.
      noisy_scorer 1 [(''a'', 5, 0, 0), (''b'', 7, 0, 0)] = Some (printed, maxN, noisy) \<and>
      (\<forall>l\<in>set printed. line_occ l = 0)"
    by blast
  then show ?thesis
    by (simp add: row_bw_def row_llc_def)
qed






lemma sum_list_three:
  assumes "mset rows = {#ra, rb, rc#}"
  shows "sum_list (map f rows) = f ra + f rb + (f rc :: rat)"
proof -
  have "sum_list (map f rows) = sum_mset (image_mset f (mset rows))"
    by (simp add: sum_mset_sum_list[symmetric])
  also have "\<dots> = f ra + f rb + f rc"
    by (simp add: assms)
  finally show ?thesis .
qed

lemma example_scores:
  fixes la lb lc :: rat
  assumes m: "mset rows = {#(a, 100, la, 10), (b, 100, lb, 20), (c, 100, lc, 70)#}"
    and nn: "0 \<le> la" "0 \<le> lb" and le: "la \<le> lc" "lb \<le> lc"
  shows "\<forall>r\<in>set rows. line_harm (spec_score 1 rows r) = 1 / 3"
    and "\<forall>r\<in>set rows. r \<noteq> (c, 100, lc, 70) \<longrightarrow>
          line_occ (spec_score 1 rows r) < line_occ (spec_score 1 rows (c, 100, lc, 70)) \<and>
          line_noise (spec_score 1 rows r) < line_noise (spec_score 1 rows (c, 100, lc, 70))"
    and "- 1 < line_noise (spec_score 1 rows (c, 100, lc, 70))"
proof -
  let ?ra = "(a, 100 :: rat, la, 10 :: rat)" and ?rb = "(b, 100 :: rat, lb, 20 :: rat)"
    and ?rc = "(c, 100 :: rat, lc, 70 :: rat)"
  have set: "set rows = {?ra, ?rb, ?rc}"
    using arg_cong[OF m, of set_mset] by simp
  have sm: "sumMisses rows = 300"
    by (simp add: sumMisses_def sum_list_three[OF m] row_mis_def nonzero_or_one_def)
  have sb: "sumBandwidth rows = 100"
    by (simp add: sumBandwidth_def sum_list_three[OF m] row_bw_def nonzero_or_one_def)
  have "0 \<le> la + lb + lc"
    using nn le by simp
  then have so: "0 < sumOccupancy rows"
    by (simp add: sumOccupancy_def sum_list_three[OF m] row_llc_def nonzero_or_one_pos)
  have da: "la / sumOccupancy rows \<le> lc / sumOccupancy rows"
    and db: "lb / sumOccupancy rows \<le> lc / sumOccupancy rows"
    and dc: "0 \<le> lc / sumOccupancy rows"
    using so le nn by (simp_all add: divide_right_mono)
  show "\<forall>r\<in>set rows. line_harm (spec_score 1 rows r) = 1 / 3"
    by (simp add: set spec_score_def line_harm_def row_mis_def sm Let_def)
  show "\<forall>r\<in>set rows. r \<noteq> ?rc \<longrightarrow>
          line_occ (spec_score 1 rows r) < line_occ (spec_score 1 rows ?rc) \<and>
          line_noise (spec_score 1 rows r) < line_noise (spec_score 1 rows ?rc)"
    using da db
    by (auto simp: set spec_score_def line_occ_def line_noise_def row_mis_def row_llc_def
        row_bw_def sm sb Let_def)
  show "- 1 < line_noise (spec_score 1 rows ?rc)"
    using dc by (simp add: spec_score_def line_noise_def row_mis_def row_llc_def row_bw_def
        sm sb Let_def)
qed

lemma example_verdict:
  fixes la lb lc :: rat
  assumes d: "distinct (map fst rows)"
    and m: "mset rows = {#(a, 100, la, 10), (b, 100, lb, 20), (c, 100, lc, 70)#}"
    and nn: "0 \<le> la" "0 \<le> lb" and le: "la \<le> lc" "lb \<le> lc"
  shows "first_max (map (spec_score 1 rows) rows) (- 1, []) =
           (line_noise (spec_score 1 rows (c, 100, lc, 70)), c)"
proof -
  let ?rc = "(c, 100 :: rat, lc, 70 :: rat)"
  let ?ls = "map (spec_score 1 rows) rows"
  have "?rc \<in> set rows"
    using arg_cong[OF m, of set_mset] by auto
  then obtain k where k: "k < length rows" "rows ! k = ?rc"
    by (auto simp: in_set_conv_nth)
  have dr: "distinct rows"
    using d by (simp add: distinct_map)
  have other: "\<forall>j<length ?ls. j \<noteq> k \<longrightarrow> line_noise (?ls ! j) < line_noise (?ls ! k)"
  proof (intro allI impI)
    fix j assume j: "j < length ?ls" "j \<noteq> k"
    then have "rows ! j \<noteq> rows ! k"
      using k(1) dr by (simp add: nth_eq_iff_index_eq)
    then have "rows ! j \<noteq> ?rc"
      using k(2) by simp
    moreover have "rows ! j \<in> set rows"
      using j(1) by simp
    ultimately show "line_noise (?ls ! j) < line_noise (?ls ! k)"
      using example_scores(2)[OF m nn le] j(1) k by simp
  qed
  have "first_max ?ls (- 1, []) = (line_noise (?ls ! k), fst (?ls ! k))"
    using k example_scores(3)[OF m nn le] other
    by (intro first_max_unique) simp_all
  then show ?thesis
    using k by (simp add: spec_score_def Let_def)
qed

text \<open>
  Claim C2, as amended. For records with distinct process names the printed lines are those
  of the formulas: \<open>Occ_Score = normBW + normOcc\<close>, \<open>Harm_Score = normMiss\<close> and
  \<open>Noise_Score = (normBW + normOcc) + K * normMiss\<close>, each share taken against the floored
  sum. For three processes with bandwidths 10, 20 and 70, misses 100 each and \<open>K = 1\<close>, in
  any order, every \<open>Harm_Score\<close> is \<open>1/3\<close>; if moreover the occupancies are not negative
  and that of the bandwidth-70 process is not below the other two, that process has the
  strictly highest \<open>Occ_Score\<close> and \<open>Noise_Score\<close> and is the one reported.
\<close>

theorem noise_score_formula:
  fixes la lb lc :: rat
  assumes "distinct (map fst rows)"
  shows "\<exists>maxN noisy. noisy_scorer K rows = Some (map (spec_score K rows) rows, maxN, noisy) \<and>
    (K = 1 \<and> mset rows = {#(a, 100, la, 10), (b, 100, lb, 20), (c, 100, lc, 70)#} \<and>
     0 \<le> la \<and> 0 \<le> lb \<and> la \<le> lc \<and> lb \<le> lc \<longrightarrow>
       noisy = c \<and> maxN = line_noise (spec_score K rows (c, 100, lc, 70)) \<and>
       (\<forall>r\<in>set rows. line_harm (spec_score K rows r) = 1 / 3) \<and>
       (\<forall>r\<in>set rows. r \<noteq> (c, 100, lc, 70) \<longrightarrow>
          line_occ (spec_score K rows r) < line_occ (spec_score K rows (c, 100, lc, 70)) \<and>
          line_noise (spec_score K rows r) < line_noise (spec_score K rows (c, 100, lc, 70))))"
proof -
  let ?ls = "map (spec_score K rows) rows"
  obtain mx q where mq: "first_max ?ls (- 1, []) = (mx, q)"
    by (cases "first_max ?ls (- 1, [])")
  have run: "noisy_scorer K rows = Some (?ls, mx, q)"
    using noisy_scorer_eq[of K rows, unfolded printed_lines_spec[OF assms]] mq by simp
  have ex: "K = 1 \<and> mset rows = {#(a, 100, la, 10), (b, 100, lb, 20), (c, 100, lc, 70)#} \<and>
     0 \<le> la \<and> 0 \<le> lb \<and> la \<le> lc \<and> lb \<le> lc \<longrightarrow>
       q = c \<and> mx = line_noise (spec_score K rows (c, 100, lc, 70)) \<and>
       (\<forall>r\<in>set rows. line_harm (spec_score K rows r) = 1 / 3) \<and>
       (\<forall>r\<in>set rows. r \<noteq> (c, 100, lc, 70) \<longrightarrow>
          line_occ (spec_score K rows r) < line_occ (spec_score K rows (c, 100, lc, 70)) \<and>
          line_noise (spec_score K rows r) < line_noise (spec_score K rows (c, 100, lc, 70)))"
  proof
    assume h: "K = 1 \<and> mset rows = {#(a, 100, la, 10), (b, 100, lb, 20), (c, 100, lc, 70)#} \<and>
     0 \<le> la \<and> 0 \<le> lb \<and> la \<le> lc \<and> lb \<le> lc"
    then have K: "K = 1" and m: "mset rows = {#(a, 100, la, 10), (b, 100, lb, 20), (c, 100, lc, 70)#}"
      and nn: "0 \<le> la" "0 \<le> lb" and le: "la \<le> lc" "lb \<le> lc"
      by simp_all
    from example_verdict[OF assms m nn le] mq K
    have "q = c \<and> mx = line_noise (spec_score K rows (c, 100, lc, 70))"
      by auto
    with example_scores(1,2)[OF m nn le] K
    show "q = c \<and> mx = line_noise (spec_score K rows (c, 100, lc, 70)) \<and>
       (\<forall>r\<in>set rows. line_harm (spec_score K rows r) = 1 / 3) \<and>
       (\<forall>r\<in>set rows. r \<noteq> (c, 100, lc, 70) \<longrightarrow>
          line_occ (spec_score K rows r) < line_occ (spec_score K rows (c, 100, lc, 70)) \<and>
          line_noise (spec_score K rows r) < line_noise (spec_score K rows (c, 100, lc, 70)))"
      by simp
  qed
  from run ex show ?thesis
    by blast
qed

theorem noise_score_formula_witness:
  "distinct (map fst [(''p1'', 100 :: rat, 50 :: rat, 10 :: rat), (''p3'', 100, 50, 70), (''p2'', 100, 50, 20)]) \<and>
   mset [(''p1'', 100 :: rat, 50 :: rat, 10 :: rat), (''p3'', 100, 50, 70), (''p2'', 100, 50, 20)] =
     {#(''p1'', 100, 50, 10), (''p2'', 100, 50, 20), (''p3'', 100, 50, 70)#} \<and>
   (\<exists>maxN. noisy_scorer 1 [(''p1'', 100, 50, 10), (''p3'', 100, 50, 70), (''p2'', 100, 50, 20)] =
     Some (map (spec_score 1 [(''p1'', 100, 50, 10), (''p3'', 100, 50, 70), (''p2'', 100, 50, 20)])
             [(''p1'', 100, 50, 10), (''p3'', 100, 50, 70), (''p2'', 100, 50, 20)], maxN, ''p3''))"
proof -
  let ?rows = "[(''p1'', 100 :: rat, 50 :: rat, 10 :: rat), (''p3'', 100, 50, 70), (''p2'', 100, 50, 20)]"
  have d: "distinct (map fst ?rows)"
    by simp
  have m: "mset ?rows = {#(''p1'', 100, 50, 10), (''p2'', 100, 50, 20), (''p3'', 100, 50, 70)#}"
    by simp
  from noise_score_formula[OF d, of 1 "''p1''" 50 "''p2''" 50 "''p3''" 50] m
  have "\<exists>maxN. noisy_scorer 1 ?rows = Some (map (spec_score 1 ?rows) ?rows, maxN, ''p3'')"
    by auto
  with d m show ?thesis
    by blast
qed

text \<open>
  The example of claim C2 does not fix the occupancies. With occupancies 1000, 0 and 0 the
  process with bandwidth 10 has the highest \<open>Occ_Score\<close> and \<open>Noise_Score\<close> and is reported.
\<close>

theorem occupancy_outweighs_bandwidth:
  "noisy_scorer 1 [(''a'', 100, 1000, 10), (''b'', 100, 0, 20), (''c'', 100, 0, 70)] =
     Some ([(''a'', 11 / 10, 1 / 3, 43 / 30), (''b'', 1 / 5, 1 / 3, 8 / 15),
            (''c'', 7 / 10, 1 / 3, 31 / 30)], 43 / 30, ''a'')"
  by (simp add: noisy_scorer_def scorer_END_def scorer_init_def nonzero_or_one_def
        score_line_def awk_div_def elem_def Let_def)

section \<open>Properties of the core-map scoring script\<close>

lemma data_rule_row:
  "data_rule m st fs =
     st\<lparr>block := (block st)(idx st \<mapsto> row_sample m fs),
        idx := Some (case idx st of None \<Rightarrow> 1 | Some n \<Rightarrow> n + 1),
        have_block := True\<rparr>"
  by (simp add: data_rule_def row_sample_def Let_def)

lemma data_rules_from:
  assumes "idx st = Some n0"
  shows "idx (foldl (data_rule m) st fss) = Some (n0 + length fss) \<and>
     block (foldl (data_rule m) st fss) None = block st None \<and>
     (\<forall>j. block (foldl (data_rule m) st fss) (Some j) =
        (if n0 \<le> j \<and> j < n0 + length fss then Some (row_sample m (fss ! (j - n0)))
         else block st (Some j)))"
proof (induction fss rule: rev_induct)
  case Nil
  show ?case using assms by auto
next
  case (snoc fs fss)
  then show ?case
    by (auto simp: data_rule_row nth_append)
qed

lemma accumulate_foldl:
  "accumulate b is P = foldl (\<lambda>P x. P_add P (s_PROC x) x) P (map (row_at b) is)"
  by (induction "is" arbitrary: P) (simp_all add: row_at_def Let_def)

lemma total_P_add: "total_occupancy (P_add P p x) = total_occupancy P + s_LLC x"
  by (induction P p x rule: P_add.induct) (simp_all add: total_occupancy_def)

lemma total_foldl:
  "total_occupancy (foldl (\<lambda>P x. P_add P (s_PROC x) x) P xs) =
     total_occupancy P + sum_list (map s_LLC xs)"
  by (induction xs arbitrary: P) (simp_all add: total_P_add)

lemma P_get_P_add:
  "P_LLC (P_get (P_add P p x) q) = P_LLC (P_get P q) + (if q = p then s_LLC x else 0)"
  by (induction P p x rule: P_add.induct) (auto simp: P_get_def zero_psum_def)

lemma P_get_foldl:
  "P_LLC (P_get (foldl (\<lambda>P x. P_add P (s_PROC x) x) P xs) q) =
     P_LLC (P_get P q) + sum_list (map s_LLC (filter (\<lambda>x. s_PROC x = q) xs))"
  by (induction xs arbitrary: P) (auto simp: P_get_P_add)

lemma score_record_of_Some:
  assumes "sbw \<noteq> 0" "socc \<noteq> 0" "smis \<noteq> 0"
  shows "\<exists>r. score_record_of tm K P sbw socc smis p = Some r"
  using assms by (simp add: score_record_of_def awk_div_def Let_def)

lemma culprit_loop_Some:
  assumes "sbw \<noteq> 0" "socc \<noteq> 0" "smis \<noteq> 0"
  shows "\<exists>out. culprit_loop tm K P sbw socc smis ps (printed, maxN, culprit) = Some out"
proof (induction ps arbitrary: printed maxN culprit)
  case Nil
  show ?case by simp
next
  case (Cons p ps)
  obtain r where "score_record_of tm K P sbw socc smis p = Some r"
    using score_record_of_Some[OF assms] by blast
  with Cons show ?case
    by simp
qed

lemma flush_block_Some:
  "\<exists>out. flush_block visit K st = Some out \<and>
     t_aggregates out = accumulate (block st) [0..<(case idx st of None \<Rightarrow> 0 | Some k \<Rightarrow> k)] []"
proof -
  let ?P = "accumulate (block st) [0..<(case idx st of None \<Rightarrow> 0 | Some k \<Rightarrow> k)] []"
  let ?ks = "visit (map fst ?P)"
  let ?f = "\<lambda>s :: rat. if s = 0 then 1 else s"
  let ?sbw = "?f (foldl (\<lambda>a p. a + (P_MBL (P_get ?P p) + P_MBR (P_get ?P p))) 0 ?ks)"
  let ?socc = "?f (foldl (\<lambda>a p. a + P_LLC (P_get ?P p)) 0 ?ks)"
  let ?smis = "?f (foldl (\<lambda>a p. a + P_MIS (P_get ?P p)) 0 ?ks)"
  have "?sbw \<noteq> 0" "?socc \<noteq> 0" "?smis \<noteq> 0"
    by simp_all
  from culprit_loop_Some[OF this, of "time st" K ?P ?ks "[]" "- 1" "[]"]
  obtain printed maxN culprit where
    "culprit_loop (time st) K ?P ?sbw ?socc ?smis ?ks ([], - 1, []) = Some (printed, maxN, culprit)"
    by (metis prod_cases3)
  then show ?thesis
    by (simp add: flush_block_def Let_def)
qed

lemma rows_after_reset:
  assumes "idx st = Some 0" and "block st = Map.empty"
  shows "map (row_at (block (foldl (data_rule m) st fss))) [0..<length fss] = map (row_sample m) fss"
proof (rule nth_equalityI)
  show "length (map (row_at (block (foldl (data_rule m) st fss))) [0..<length fss]) =
      length (map (row_sample m) fss)"
    by simp
next
  fix i assume "i < length (map (row_at (block (foldl (data_rule m) st fss))) [0..<length fss])"
  then have i: "i < length fss"
    by simp
  then have "block (foldl (data_rule m) st fss) (Some i) = Some (row_sample m (fss ! i))"
    using data_rules_from[OF assms(1), of m fss] by simp
  with i show "map (row_at (block (foldl (data_rule m) st fss))) [0..<length fss] ! i =
      map (row_sample m) fss ! i"
    by (simp add: row_at_def)
qed

text \<open>
  A block that starts from the state \<^verbatim>\<open>reset_block\<close> leaves (every block but the first):
  the per-process occupancies add up to the occupancies of the rows of the block, each
  process holds the sum of the rows labelled with it, and a row whose core is not in the
  table is labelled \<open>unmapped\<close>.
\<close>

lemma later_blocks_conserve:
  assumes "idx st = Some 0" and "block st = Map.empty"
  shows "\<exists>out. flush_block visit K (foldl (data_rule m) st fss) = Some out \<and>
    total_occupancy (t_aggregates out) = sum_list (map (\<lambda>fs. awk_num (field fs 4)) fss) \<and>
    (\<forall>q. P_LLC (P_get (t_aggregates out) q) =
       sum_list (map s_LLC (filter (\<lambda>x. s_PROC x = q) (map (row_sample m) fss)))) \<and>
    (\<forall>fs\<in>set fss. m (awk_num (field fs 1)) = None \<longrightarrow> s_PROC (row_sample m fs) = ''unmapped'')"
proof -
  let ?st = "foldl (data_rule m) st fss"
  have n: "idx ?st = Some (length fss)"
    using data_rules_from[OF assms(1), of m fss] by simp
  obtain out where out: "flush_block visit K ?st = Some out"
    "t_aggregates out = accumulate (block ?st) [0..<length fss] []"
    using flush_block_Some[of visit K ?st] n by auto
  have agg: "t_aggregates out = foldl (\<lambda>P x. P_add P (s_PROC x) x) [] (map (row_sample m) fss)"
    using out(2) rows_after_reset[OF assms, of m fss] by (simp add: accumulate_foldl)
  have "total_occupancy (t_aggregates out) = sum_list (map s_LLC (map (row_sample m) fss))"
    unfolding agg total_foldl by (simp add: total_occupancy_def)
  also have "\<dots> = sum_list (map (\<lambda>fs. awk_num (field fs 4)) fss)"
    by (simp add: comp_def row_sample_def)
  finally have tot: "total_occupancy (t_aggregates out) =
      sum_list (map (\<lambda>fs. awk_num (field fs 4)) fss)" .
  have per: "\<forall>q. P_LLC (P_get (t_aggregates out) q) =
       sum_list (map s_LLC (filter (\<lambda>x. s_PROC x = q) (map (row_sample m) fss)))"
    unfolding agg P_get_foldl by (simp add: P_get_def zero_psum_def)
  have un: "\<forall>fs\<in>set fss. m (awk_num (field fs 1)) = None \<longrightarrow>
      s_PROC (row_sample m fs) = ''unmapped''"
    by (simp add: row_sample_def)
  from out(1) tot per un show ?thesis
    by blast
qed

lemma rows_first_block:
  "map (row_at (block (foldl (data_rule m) coremap_init (fs # rest)))) [0..<Suc (length rest)] =
     unset_sample # map (row_sample m) rest"
proof -
  let ?st1 = "data_rule m coremap_init fs"
  have st1: "idx ?st1 = Some 1" "block ?st1 (Some 0) = None"
    by (simp_all add: data_rule_row coremap_init_def)
  let ?st = "foldl (data_rule m) ?st1 rest"
  have b: "\<forall>j. block ?st (Some j) =
        (if 1 \<le> j \<and> j < 1 + length rest then Some (row_sample m (rest ! (j - 1)))
         else block ?st1 (Some j))"
    using data_rules_from[OF st1(1), of m rest] by simp
  have "[0..<Suc (length rest)] = 0 # map Suc [0..<length rest]"
    by (simp add: upt_conv_Cons map_Suc_upt del: upt_Suc)
  moreover have "row_at (block ?st) 0 = unset_sample"
    using b st1(2) by (simp add: row_at_def)
  moreover have "map (row_at (block ?st)) (map Suc [0..<length rest]) = map (row_sample m) rest"
  proof (rule nth_equalityI)
    show "length (map (row_at (block ?st)) (map Suc [0..<length rest])) =
        length (map (row_sample m) rest)"
      by simp
  next
    fix i assume "i < length (map (row_at (block ?st)) (map Suc [0..<length rest]))"
    then have i: "i < length rest"
      by simp
    with b have "block ?st (Some (Suc i)) = Some (row_sample m (rest ! i))"
      by simp
    with i show "map (row_at (block ?st)) (map Suc [0..<length rest]) ! i =
        map (row_sample m) rest ! i"
      by (simp add: row_at_def del: upt_Suc)
  qed
  ultimately show ?thesis
    by (simp del: upt_Suc)
qed

text \<open>
  The first block starts with \<^verbatim>\<open>idx\<close> unset: its first row is written at the empty index and
  never read, and index 0, never written, is read instead. The sums of the first block
  miss the first row and contain an entry for the empty process name.
\<close>

lemma first_block_loses_first_row:
  "\<exists>out. flush_block visit K (foldl (data_rule m) coremap_init (fs # rest)) = Some out \<and>
    total_occupancy (t_aggregates out) = sum_list (map (\<lambda>fs. awk_num (field fs 4)) rest) \<and>
    fst (hd (t_aggregates out)) = []"
proof -
  let ?st = "foldl (data_rule m) coremap_init (fs # rest)"
  have "idx (data_rule m coremap_init fs) = Some 1"
    by (simp add: data_rule_row coremap_init_def)
  from data_rules_from[OF this, of m rest] have n: "idx ?st = Some (Suc (length rest))"
    by simp
  obtain out where out: "flush_block visit K ?st = Some out"
    "t_aggregates out = accumulate (block ?st) [0..<Suc (length rest)] []"
    using flush_block_Some[of visit K ?st] n by auto
  let ?add = "\<lambda>P x. P_add P (s_PROC x) x"
  have agg: "t_aggregates out = foldl ?add (P_add [] [] unset_sample) (map (row_sample m) rest)"
    unfolding out(2) accumulate_foldl rows_first_block by (simp add: unset_sample_def)
  have "total_occupancy (t_aggregates out) = sum_list (map s_LLC (map (row_sample m) rest))"
    unfolding agg total_foldl by (simp add: total_occupancy_def unset_sample_def)
  also have "\<dots> = sum_list (map (\<lambda>fs. awk_num (field fs 4)) rest)"
    by (simp add: comp_def row_sample_def)
  finally have tot: "total_occupancy (t_aggregates out) =
      sum_list (map (\<lambda>fs. awk_num (field fs 4)) rest)" .
  have hd_add: "fst (hd (P_add P p x)) = (if P = [] then p else fst (hd P))" for P p x
    by (cases P) auto
  have ne_add: "P_add P p x \<noteq> []" for P p x
    by (cases P) (auto split: if_splits)
  have "fst (hd (foldl ?add P xs)) = fst (hd P)" if "P \<noteq> []" for P xs
    using that by (induction xs arbitrary: P) (simp_all add: hd_add ne_add)
  then have "fst (hd (t_aggregates out)) = []"
    unfolding agg by (simp add: ne_add)
  with out(1) tot show ?thesis
    by blast
qed

text \<open>
  Claim C3. A log of two ticks with the same two rows (occupancies 100 and 200), cores 24
  and 25 mapped to \<open>proc1\<close> and \<open>proc2\<close>. In the first tick the per-process occupancies are 0
  for the empty name and 200 for \<open>proc2\<close>: the row of core 24 is dropped, where the claim
  asks for a total of 300. In the second tick the row of the unmapped core 99 is labelled
  \<open>unmapped\<close> and the total is 300, as claimed.
\<close>

theorem first_tick_row_lost:
  "map_option (map (\<lambda>t. (t_time t, map (\<lambda>kv. (fst kv, P_LLC (snd kv))) (t_aggregates t))))
     (coremap_awk id 1 [24 \<mapsto> ''proc1'', 25 \<mapsto> ''proc2'']
        [''TIME 2024-01-01 00:00:01'',
         ''    CORE   IPC   MISSES   LLC[KB]   MBL[MB/s]   MBR[MB/s]'',
         ''      24  0.50      12k       100        1.0         2.0'',
         ''      25  0.60       3k       200        1.0         2.0'',
         ''TIME 2024-01-01 00:00:02'',
         ''      24  0.50      12k       100        1.0         2.0'',
         ''      99  0.60       3k       200        1.0         2.0'']) =
   Some [(''2024-01-01 00:00:01'', [([], 0), (''proc2'', 200)]),
         (''2024-01-01 00:00:02'', [(''proc1'', 100), (''unmapped'', 200)])]"
  by (simp add: coremap_awk_def coremap_line_def coremap_init_def flush_block_def data_rule_def
      reset_block_def is_data_line_def awk_fields.simps field_def awk_eval is_fs_def
      score_record_of_def awk_div_def P_get_def zero_psum_def unset_sample_def)

section \<open>Properties of the two C programs\<close>

lemma wait_for_pid_trace: "trace (fst (wait_for_pid e pid n s)) = trace s"
  by (induction n arbitrary: s) simp_all

lemma file_content_snoc: "file_content (tr @ [a]) f = file_step f (file_content tr f) a"
  by (simp add: file_content_def)

lemma file_content_opened:
  assumes "outfile1 \<noteq> outfile2"
  shows "file_content (tr @ [Mon_start p1, Mon_start p2, Fopen_w outfile1, Fopen_w outfile2,
            Fprintf outfile1 h, Fprintf outfile2 h]) outfile1 = Some [h]"
    and "file_content (tr @ [Mon_start p1, Mon_start p2, Fopen_w outfile1, Fopen_w outfile2,
            Fprintf outfile1 h, Fprintf outfile2 h]) outfile2 = Some [h]"
  using assms by (simp_all add: file_content_def file_step_def)

text \<open>
  Claim C8, as amended. Both processes passed the liveness check, both monitoring groups
  were started and both output files opened; one of the processes is gone at the check of
  the first tick. Then the run ends, before any poll, with the error that this process
  disappeared, and both output files of the phase exist and hold the header line only.
\<close>

theorem vanished_before_first_poll:
  assumes w1: "wait_for_pid e pid1 5 s = (s1, True)"
    and w2: "wait_for_pid e pid2 5 s1 = (s2, True)"
    and st: "mon_start_ret e (clock s2) pid1 = 0" "mon_start_ret e (clock s2) pid2 = 0"
    and fo: "can_fopen e (clock s2) outfile1" "can_fopen e (clock s2) outfile2"
    and du: "0 < duration"
    and ne: "outfile1 \<noteq> outfile2"
    and gone: "\<not> alive e (clock s2 + 1) pid1 \<or> \<not> alive e (clock s2 + 1) pid2"
  shows "\<exists>s'. monitor_pids_pair e pid1 pid2 duration outfile1 outfile2 s =
           (s', Inl (PID_disappeared (if alive e (clock s2 + 1) pid1 then pid2 else pid1))) \<and>
         trace s' = trace s @ [Mon_start pid1, Mon_start pid2, Fopen_w outfile1, Fopen_w outfile2,
            Fprintf outfile1 header_line, Fprintf outfile2 header_line] \<and>
         file_content (trace s') outfile1 = Some [header_line] \<and>
         file_content (trace s') outfile2 = Some [header_line]"
proof -
  obtain n where n: "nat duration = Suc n"
    using du by (cases "nat duration") auto
  have t2: "trace s2 = trace s"
    using wait_for_pid_trace[of e pid1 5 s] wait_for_pid_trace[of e pid2 5 s1] w1 w2 by simp
  let ?tr = "trace s @ [Mon_start pid1, Mon_start pid2, Fopen_w outfile1, Fopen_w outfile2,
            Fprintf outfile1 header_line, Fprintf outfile2 header_line]"
  let ?s' = "s2\<lparr>trace := ?tr, clock := clock s2 + 1\<rparr>"
  have run: "monitor_pids_pair e pid1 pid2 duration outfile1 outfile2 s =
      (?s', Inl (PID_disappeared (if alive e (clock s2 + 1) pid1 then pid2 else pid1)))"
    using w1 w2 st fo gone t2
    by (auto simp: monitor_pids_pair_def n wait_or_die_def attempt_def emit_def start_second_def
        sleep1_def still_alive_def)
  have "trace ?s' = ?tr"
    by simp
  with run file_content_opened[OF ne, of "trace s" pid1 pid2 header_line] show ?thesis
    by (intro exI[of _ ?s']) simp
qed

lemma monitor_loop_numeral:
  "monitor_loop e pid1 pid2 outfile1 outfile2 (numeral k) =
     steps
       [sleep1,
        still_alive e pid1,
        still_alive e pid2,
        attempt (mon_poll_ok e) Mon_poll Mon_poll_failed,
        print_samples e pid1 pid2 outfile1 outfile2,
        monitor_loop e pid1 pid2 outfile1 outfile2 (pred_numeral k)]"
  by (simp add: numeral_eq_Suc)

lemma vanishing_waits:
  "wait_for_pid vanishing_env 100 5 start_state = (start_state, True)"
  "wait_for_pid vanishing_env 200 5 start_state = (start_state, True)"
  by (simp_all add: eval_nat_numeral vanishing_env_def working_env_def start_state_def)

lemma vanishing_facts:
  "mon_start_ret vanishing_env (clock start_state) 100 = 0"
  "mon_start_ret vanishing_env (clock start_state) 200 = 0"
  "can_fopen vanishing_env (clock start_state) ''VM1_half_baseline.txt''"
  "can_fopen vanishing_env (clock start_state) ''VM2_half_baseline.txt''"
  "\<not> alive vanishing_env (clock start_state + 1) 100 \<or> \<not> alive vanishing_env (clock start_state + 1) 200"
  "alive vanishing_env (clock start_state + 1) 100 = False"
  by (simp_all add: vanishing_env_def working_env_def start_state_def)

theorem vanished_before_first_poll_witness:
  "wait_for_pid vanishing_env 100 5 start_state = (start_state, True) \<and>
   wait_for_pid vanishing_env 200 5 start_state = (start_state, True) \<and>
   \<not> alive vanishing_env (clock start_state + 1) 100 \<and>
   (\<exists>s'. monitor_pids_pair vanishing_env 100 200 30 ''VM1_half_baseline.txt''
            ''VM2_half_baseline.txt'' start_state = (s', Inl (PID_disappeared 100)) \<and>
         file_content (trace s') ''VM1_half_baseline.txt'' = Some [header_line] \<and>
         file_content (trace s') ''VM2_half_baseline.txt'' = Some [header_line])"
proof -
  have d: "(0 :: int) < 30" and ne: "''VM1_half_baseline.txt'' \<noteq> ''VM2_half_baseline.txt''"
    by simp_all
  from vanished_before_first_poll[OF vanishing_waits vanishing_facts(1-4) d ne vanishing_facts(5)]
  have "\<exists>s'. monitor_pids_pair vanishing_env 100 200 30 ''VM1_half_baseline.txt''
            ''VM2_half_baseline.txt'' start_state = (s', Inl (PID_disappeared 100)) \<and>
         file_content (trace s') ''VM1_half_baseline.txt'' = Some [header_line] \<and>
         file_content (trace s') ''VM2_half_baseline.txt'' = Some [header_line]"
    unfolding vanishing_facts(6) by auto
  with vanishing_waits vanishing_facts(6) show ?thesis
    by simp
qed

text \<open>
  Claim C8 as stated fails: process 100 is alive at the liveness check and gone one second
  later. The run ends with the error that process 100 disappeared, and both output files
  exist, each holding the header line.
\<close>

theorem header_only_file_left:
  "snd (monitor_pids_pair vanishing_env 100 200 30 ''VM1_half_baseline.txt''
          ''VM2_half_baseline.txt'' start_state) = Inl (PID_disappeared 100) \<and>
   file_content (trace (fst (monitor_pids_pair vanishing_env 100 200 30 ''VM1_half_baseline.txt''
          ''VM2_half_baseline.txt'' start_state))) ''VM1_half_baseline.txt'' = Some [header_line] \<and>
   file_content (trace (fst (monitor_pids_pair vanishing_env 100 200 30 ''VM1_half_baseline.txt''
          ''VM2_half_baseline.txt'' start_state))) ''VM2_half_baseline.txt'' = Some [header_line]"
proof -
  have run: "monitor_pids_pair vanishing_env 100 200 30 ''VM1_half_baseline.txt''
      ''VM2_half_baseline.txt'' start_state =
    (\<lparr>clock = 1, trace = [Mon_start 100, Mon_start 200, Fopen_w ''VM1_half_baseline.txt'',
        Fopen_w ''VM2_half_baseline.txt'', Fprintf ''VM1_half_baseline.txt'' header_line,
        Fprintf ''VM2_half_baseline.txt'' header_line]\<rparr>, Inl (PID_disappeared 100))"
    unfolding monitor_pids_pair_def
    apply (simp add: wait_or_die_def vanishing_waits monitor_loop_numeral)
    apply (simp add: attempt_def emit_def start_second_def sleep1_def still_alive_def
        vanishing_env_def working_env_def start_state_def)
    done
  show ?thesis
    unfolding run by (simp add: file_content_def file_step_def)
qed

lemma replicate_numeral: "replicate (numeral k) x = x # replicate (pred_numeral k) x"
  by (simp add: numeral_eq_Suc)

lemma split_evals:
  "split_mask 0 = (0, 0)"
  "split_mask 0x7fff = (0x7f, 0x7f80)"
  "split_mask_cos 0x7fff = (0x7f, 0x7f80)"
  by code_simp+

lemma count_bits_evals:
  "count_bits 0 = 0"
  "count_bits 0x7fff = 15"
  by (simp_all add: count_bits_def count_bits_loop.simps)

lemma text_evals:
  "hex0 16 0 = ''0000000000000000''"
  "hex0 16 0x7f = ''000000000000007f''"
  "hex0 16 0x7f80 = ''0000000000007f80''"
  "hex0 (Suc (Suc (Suc (Suc 0)))) 0x7f = ''007f''"
  "hex0 (Suc (Suc (Suc (Suc 0)))) 0x7f80 = ''7f80''"
  "dec_int 0 = ''0''"
  "dec_int 1 = ''1''"
  "dec_int 100 = ''100''"
  "dec_int 200 = ''200''"
  by (simp_all add: hex0_def hex.simps dec_int_def dec.simps digit_char_def replicate_numeral)

lemmas parse_eval = read_file_def atoi_def parse_hex_u64_def parse_hex_no_prefix_def
  strtoull_def strip_sign_def is_space_def is_digit_def digits_val_def digit_val_def
  has_0x_def digit_in_base_def hex_digit_val_def base_val_def Let_def

lemma parse_evals:
  "atoi ''1'' = 1"
  "read_file (Some ''0\<newline>'') = Some ''0''"
  "read_file (Some ''7fff\<newline>'') = Some ''7fff''"
  "parse_hex_u64 ''0x0'' = Some 0"
  "parse_hex_u64 ''0x7fff'' = Some 0x7fff"
  "parse_hex_no_prefix ''0'' = Some 0"
  "parse_hex_no_prefix ''7fff'' = Some 0x7fff"
  by (simp_all add: parse_eval)

lemma wait_for_pid_alive: "alive e (clock s) pid \<Longrightarrow> wait_for_pid e pid 5 s = (s, True)"
  by (simp add: eval_nat_numeral)

lemmas run_eval = main_split_cache_def main_cos_def run_split_cache_def run_cos_def
  check_def emit_def attempt_def assign_pids_def mkdir_if_missing_def write_str_to_file_def
  append_pid_def rmdir_def monitor_pids_pair_def wait_or_die_def start_second_def sleep1_def
  still_alive_def print_samples_def start_state_def working_env_def control_trace_def
  teardown_split_cache_def teardown_cos_def has_0x_def Let_def parse_evals split_evals count_bits_evals text_evals wait_for_pid_alive

text \<open>
  In \<^verbatim>\<open>cos.c\<close> a mask without a set bit ends the run before anything is done.
\<close>

lemma cos_zero_mask_fatal:
  assumes "0 < atoi dur" and "read_file (cbm_file e) = Some cbm_raw"
    and "parse_hex_no_prefix (if has_0x cbm_raw then drop 2 cbm_raw else cbm_raw) = Some full_mask"
    and "popcount full_mask = 0"
  shows "main_cos e [vm1, vm2, dur] s = (s, Inl Zero_bits_set) \<or>
         main_cos e [vm1, vm2, dur] s =
           (s, Inl (Unexpected_CBM (if has_0x cbm_raw then drop 2 cbm_raw else cbm_raw)))"
  using assms by (simp add: main_cos_def Let_def check_def count_bits_popcount)

text \<open>
  Claim C7. With the mask file holding \<open>0\<close>, \<^verbatim>\<open>split_cache_and_monitor.c\<close> does not stop: it
  creates both classes, writes schemata with an all-zero mask for each, and runs to the
  end. \<^verbatim>\<open>cos.c\<close> stops on the same input with the fatal error for a mask without set bits,
  before any action.
\<close>

theorem zero_mask_not_rejected:
  "take 4 (trace (fst (main_split_cache (working_env ''0\<newline>'') [''vm1'', ''vm2'', ''1''] start_state))) =
     [Mkdir COS1_DIR, Mkdir COS2_DIR,
      Write_file COS1_SCHEMATA ''L3:0=0x0;L3:1=0x0000000000000000'',
      Write_file COS2_SCHEMATA ''L3:0=0x0;L3:1=0x0000000000000000''] \<and>
   snd (main_split_cache (working_env ''0\<newline>'') [''vm1'', ''vm2'', ''1''] start_state) = Inr () \<and>
   main_cos (working_env ''0\<newline>'') [''vm1'', ''vm2'', ''1''] start_state =
     (start_state, Inl Zero_bits_set)"
  by (simp add: run_eval)

text \<open>
  The block between the phases, on every machine and from every state: when it completes,
  \<^verbatim>\<open>split_cache_and_monitor.c\<close> has appended both process ids to the default membership
  file and removed both class directories; \<^verbatim>\<open>cos.c\<close> has appended them to the membership
  files of the two classes instead.
\<close>

lemma teardown_split_cache_trace:
  assumes "teardown_split_cache e pid1 pid2 s = (s', Inr ())"
  shows "trace s' = trace s @
      [Pqos_mon_reset, Append_file DEFAULT_TASKS (dec_int pid1),
       Append_file DEFAULT_TASKS (dec_int pid2), Rmdir COS1_DIR, Rmdir COS2_DIR]"
  using assms
  by (auto simp: teardown_split_cache_def emit_def append_pid_def rmdir_def attempt_def
      split: if_splits)

lemma teardown_cos_trace:
  assumes "teardown_cos e pid1 pid2 s = (s', Inr ())"
  shows "trace s' = trace s @
      [Pqos_mon_reset, Append_file COS1_TASKS (dec_int pid1),
       Append_file COS2_TASKS (dec_int pid2), Rmdir COS1_DIR, Rmdir COS2_DIR]"
  using assms
  by (auto simp: teardown_cos_def emit_def append_pid_def rmdir_def attempt_def
      split: if_splits)

text \<open>
  Claim C9. On a machine where everything succeeds, with mask \<open>7fff\<close>, processes 100 and
  200 and one second per phase, \<^verbatim>\<open>cos.c\<close> appends the two process ids, between the phases,
  to the membership files of the classes \<open>COS1\<close> and \<open>COS2\<close> again and never to the default
  membership file; it then removes both class directories. \<^verbatim>\<open>split_cache_and_monitor.c\<close>
  appends them to the default membership file, as claimed.
\<close>

theorem cos_teardown_wrong_file:
  "control_trace (trace (fst (main_cos (working_env ''7fff\<newline>'') [''vm1'', ''vm2'', ''1''] start_state))) =
     [Mkdir COS1_DIR, Mkdir COS2_DIR, Pqos_init, Pqos_mon_reset,
      Write_file COS1_SCHEMATA (cos_schema ''MB:0=80;1=80'' 0 1 ''007f''),
      Write_file COS2_SCHEMATA (cos_schema ''MB:0=20;1=20'' 0 1 ''7f80''),
      Append_file COS1_TASKS ''100'', Append_file COS2_TASKS ''200'',
      Mon_start 100, Mon_start 200, Fopen_w ''VM1_half_baseline.txt'',
      Fopen_w ''VM2_half_baseline.txt'', Mon_poll, Mon_stop 100, Mon_stop 200,
      Fclose ''VM1_half_baseline.txt'', Fclose ''VM2_half_baseline.txt'',
      Pqos_mon_reset, Append_file COS1_TASKS ''100'', Append_file COS2_TASKS ''200'',
      Rmdir COS1_DIR, Rmdir COS2_DIR, Pqos_fini, Pqos_init, Pqos_mon_reset,
      Mon_start 100, Mon_start 200, Fopen_w ''VM1_normal.txt'', Fopen_w ''VM2_normal.txt'',
      Mon_poll, Mon_stop 100, Mon_stop 200, Fclose ''VM1_normal.txt'',
      Fclose ''VM2_normal.txt'', Pqos_fini] \<and>
   control_trace (trace (fst (main_split_cache (working_env ''7fff\<newline>'') [''vm1'', ''vm2'', ''1''] start_state))) =
     [Mkdir COS1_DIR, Mkdir COS2_DIR,
      Write_file COS1_SCHEMATA ''L3:0=0x0;L3:1=0x000000000000007f'',
      Write_file COS2_SCHEMATA ''L3:0=0x0;L3:1=0x0000000000007f80'',
      Append_file COS1_TASKS ''100'', Append_file COS2_TASKS ''200'',
      Pqos_init, Pqos_mon_reset, Pqos_mon_reset, Mon_start 100,
      Mon_start 200, Fopen_w ''VM1_half_baseline.txt'',
      Fopen_w ''VM2_half_baseline.txt'', Mon_poll, Mon_stop 100,
      Mon_stop 200, Fclose ''VM1_half_baseline.txt'',
      Fclose ''VM2_half_baseline.txt'', Pqos_mon_reset,
      Append_file DEFAULT_TASKS ''100'', Append_file DEFAULT_TASKS ''200'',
      Rmdir COS1_DIR, Rmdir COS2_DIR, Pqos_fini, Pqos_init, Pqos_mon_reset,
      Pqos_mon_reset, Mon_start 100, Mon_start 200,
      Fopen_w ''VM1_normal.txt'', Fopen_w ''VM2_normal.txt'', Mon_poll,
      Mon_stop 100, Mon_stop 200, Fclose ''VM1_normal.txt'',
      Fclose ''VM2_normal.txt'', Pqos_fini]"
  by (simp add: run_eval)

end
